theory Spec2Isabelle
  imports Complex_Main "HOL-Library.Sublist" "HOL-Library.Log_Nat"
begin

section \<open>Strings and the regular expressions of the source\<close>

text \<open>
  A \<^typ>\<open>string\<close> stands for a JavaScript string whose UTF-16 code units are all below 256;
  one \<^typ>\<open>char\<close> is one code unit, so \<^const>\<open>length\<close> is the source's \<^verbatim>\<open>.length\<close>.
  Counts and ordinals are of type \<^typ>\<open>int\<close>.
\<close>

definition is_space :: "char \<Rightarrow> bool" where
  \<comment> \<open>the class \<^verbatim>\<open>\s\<close>, on code units below 256\<close>
  "is_space c = (c \<in> set [CHR 0x09, CHR 0x0A, CHR 0x0B, CHR 0x0C, CHR 0x0D, CHR '' '', CHR 0xA0])"

definition is_digit :: "char \<Rightarrow> bool" where
  \<comment> \<open>the class \<^verbatim>\<open>\d\<close>\<close>
  "is_digit c = (c \<in> set ''0123456789'')"

definition is_word_char :: "char \<Rightarrow> bool" where
  \<comment> \<open>the class \<^verbatim>\<open>\w\<close>\<close>
  "is_word_char c =
     (c \<in> set ''abcdefghijklmnopqrstuvwxyzABCDEFGHIJKLMNOPQRSTUVWXYZ0123456789_'')"

definition is_line_terminator :: "char \<Rightarrow> bool" where
  "is_line_terminator c = (c = CHR 0x0A \<or> c = CHR 0x0D)"

definition toLowerCase_char :: "char \<Rightarrow> char" where
  "toLowerCase_char c =
     (case map_of (zip ''ABCDEFGHIJKLMNOPQRSTUVWXYZ'' ''abcdefghijklmnopqrstuvwxyz'') c of
        Some d \<Rightarrow> d
      | None \<Rightarrow> c)"

definition toLowerCase :: "string \<Rightarrow> string" where
  \<comment> \<open>Only A to Z are mapped. The one caller deletes every character outside a to z, 0 to 9
      and white space right after, and no other code unit below 256 lowercases into those.\<close>
  "toLowerCase s = map toLowerCase_char s"

definition ci_eq :: "char \<Rightarrow> char \<Rightarrow> bool" where
  \<comment> \<open>a pattern character against a text character under the flag \<^verbatim>\<open>i\<close>\<close>
  "ci_eq p c = (toLowerCase_char p = toLowerCase_char c)"

fun match_ci :: "string \<Rightarrow> char option \<Rightarrow> string \<Rightarrow> (char option \<times> string) option" where
  \<comment> \<open>match a literal, ignoring case, at the head of the text; returns the last character
      consumed (or the one before the match, for the empty literal) and the rest of the text\<close>
  "match_ci [] prev s = Some (prev, s)"
| "match_ci (p # ps) prev [] = None"
| "match_ci (p # ps) prev (c # cs) = (if ci_eq p c then match_ci ps (Some c) cs else None)"

fun match_lit :: "string \<Rightarrow> string \<Rightarrow> string option" where
  \<comment> \<open>match a literal exactly at the head of the text; returns the rest\<close>
  "match_lit [] s = Some s"
| "match_lit (p # ps) [] = None"
| "match_lit (p # ps) (c # cs) = (if p = c then match_lit ps cs else None)"

definition at_boundary :: "char option \<Rightarrow> string \<Rightarrow> bool" where
  \<comment> \<open>the assertion \<^verbatim>\<open>\b\<close> between the character before and the rest of the text\<close>
  "at_boundary prev s =
     ((case prev of None \<Rightarrow> False | Some c \<Rightarrow> is_word_char c)
      \<noteq> (case s of [] \<Rightarrow> False | c # _ \<Rightarrow> is_word_char c))"

definition at_line_start :: "char option \<Rightarrow> bool" where
  \<comment> \<open>the assertion \<^verbatim>\<open>^\<close> under the flag \<^verbatim>\<open>m\<close>\<close>
  "at_line_start prev = (case prev of None \<Rightarrow> True | Some c \<Rightarrow> is_line_terminator c)"

fun exists_pos :: "(char option \<Rightarrow> string \<Rightarrow> bool) \<Rightarrow> char option \<Rightarrow> string \<Rightarrow> bool" where
  \<comment> \<open>\<^verbatim>\<open>RegExp.test\<close>: the pattern matches at some position of the text\<close>
  "exists_pos P prev [] = P prev []"
| "exists_pos P prev (c # cs) = (P prev (c # cs) \<or> exists_pos P (Some c) cs)"

definition word_alt_at :: "char option \<Rightarrow> string \<Rightarrow> string \<Rightarrow> bool" where
  "word_alt_at prev s alt =
     (at_boundary prev s \<and>
      (case match_ci alt prev s of
         None \<Rightarrow> False
       | Some (prev', rest) \<Rightarrow> at_boundary prev' rest))"

definition test_words :: "string list \<Rightarrow> string \<Rightarrow> bool" where
  \<comment> \<open>\<^verbatim>\<open>/\b(a|b|...)\b/i.test(s)\<close> for literal alternatives\<close>
  "test_words alts s = exists_pos (\<lambda>prev r. list_ex (word_alt_at prev r) alts) None s"

definition many1_then :: "(char \<Rightarrow> bool) \<Rightarrow> (string \<Rightarrow> bool) \<Rightarrow> string \<Rightarrow> bool" where
  \<comment> \<open>one or more characters of a class, then a continuation that cannot start in the class\<close>
  "many1_then cls k s =
     (case s of [] \<Rightarrow> False | c # _ \<Rightarrow> cls c \<and> k (dropWhile cls s))"

definition heading_at :: "char option \<Rightarrow> string \<Rightarrow> bool" where
  \<comment> \<open>\<^verbatim>\<open>^#+\s\<close>\<close>
  "heading_at prev s =
     (at_line_start prev \<and>
      many1_then (\<lambda>c. c = CHR ''#'') (\<lambda>r. case r of [] \<Rightarrow> False | c # _ \<Rightarrow> is_space c) s)"

definition heading2_at :: "char option \<Rightarrow> string \<Rightarrow> bool" where
  \<comment> \<open>\<^verbatim>\<open>^##\s\<close>\<close>
  "heading2_at prev s =
     (at_line_start prev \<and>
      (case match_lit ''##'' s of
         None \<Rightarrow> False
       | Some r \<Rightarrow> (case r of [] \<Rightarrow> False | c # _ \<Rightarrow> is_space c)))"

definition bold_at :: "string \<Rightarrow> bool" where
  \<comment> \<open>\<^verbatim>\<open>\*\*[^*]+\*\*\<close>\<close>
  "bold_at s =
     (case match_lit ''**'' s of
        None \<Rightarrow> False
      | Some r \<Rightarrow> many1_then (\<lambda>c. c \<noteq> CHR ''*'') (\<lambda>r'. match_lit ''**'' r' \<noteq> None) r)"

definition numbered_at :: "char option \<Rightarrow> string \<Rightarrow> bool" where
  \<comment> \<open>\<^verbatim>\<open>^\d+\.\<close>\<close>
  "numbered_at prev s =
     (at_line_start prev \<and> many1_then is_digit (\<lambda>r. match_lit ''.'' r \<noteq> None) s)"

definition variable_at :: "string \<Rightarrow> bool" where
  \<comment> \<open>\<^verbatim>\<open>\{\{[^}]+\}\}\<close>\<close>
  "variable_at s =
     (case match_lit ''{{'' s of
        None \<Rightarrow> False
      | Some r \<Rightarrow> many1_then (\<lambda>c. c \<noteq> CHR ''}'') (\<lambda>r'. match_lit ''}}'' r' \<noteq> None) r)"

definition test_structure :: "string \<Rightarrow> bool" where
  \<comment> \<open>\<^verbatim>\<open>/^#+\s|^##\s|\*\*[^*]+\*\*|^\d+\./m.test(s)\<close>\<close>
  "test_structure s =
     exists_pos (\<lambda>prev r. heading_at prev r \<or> heading2_at prev r \<or> bold_at r \<or> numbered_at prev r)
       None s"

definition test_heading :: "string \<Rightarrow> bool" where
  \<comment> \<open>\<^verbatim>\<open>/^#+\s/m.test(s)\<close>\<close>
  "test_heading s = exists_pos heading_at None s"

definition test_bold :: "string \<Rightarrow> bool" where
  \<comment> \<open>\<^verbatim>\<open>/\*\*[^*]+\*\*/m.test(s)\<close>\<close>
  "test_bold s = exists_pos (\<lambda>prev r. bold_at r) None s"

definition test_fence :: "string \<Rightarrow> bool" where
  \<comment> \<open>three backquotes in a row\<close>
  "test_fence s = exists_pos (\<lambda>prev r. match_lit [CHR 0x60, CHR 0x60, CHR 0x60] r \<noteq> None) None s"

definition test_variable :: "string \<Rightarrow> bool" where
  \<comment> \<open>\<^verbatim>\<open>/\{\{[^}]+\}\}/.test(s)\<close>\<close>
  "test_variable s = exists_pos (\<lambda>prev r. variable_at r) None s"

section \<open>Numbers\<close>

text \<open>
  A JavaScript number is a double. The model writes a number as the real it is meant to be and
  rounds where the source does: \<open>to_double\<close> is the double nearest to a real (round to
  nearest, ties to even, with the subnormal range; overflow to infinity and NaN are outside the
  model). Every score the program computes is a multiple of one tenth between 1 and 5.2 before
  \<^verbatim>\<open>Math.round(score * 10)\<close>, far from a rounding boundary, and a score is written as that
  decimal; it stands for the double nearest to it. Comparing two scores gives the same answer
  on the decimals and on the doubles. Subtracting them does not: the doubles for 4.1 and 3.6
  are a little less than 0.5 apart. So where the source subtracts or divides, the model applies
  \<open>to_double\<close>.
\<close>

definition pow2 :: "int \<Rightarrow> real" where
  "pow2 n = (if 0 \<le> n then 2 ^ nat n else 1 / 2 ^ nat (- n))"

definition exponent :: "real \<Rightarrow> int" where
  \<comment> \<open>for \<open>x > 0\<close>, the \<open>e\<close> with \<open>2 ^ e \<le> x < 2 ^ (e + 1)\<close>\<close>
  "exponent x = (if 1 \<le> x then bitlen \<lfloor>x\<rfloor> - 1 else - bitlen (\<lceil>1 / x\<rceil> - 1))"

definition round_even :: "real \<Rightarrow> int" where
  \<comment> \<open>the nearest integer, the even one of two equally near\<close>
  "round_even y =
     (let f = \<lfloor>y\<rfloor>; d = y - real_of_int f in
      if d < 1 / 2 then f else if d > 1 / 2 then f + 1 else if even f then f else f + 1)"

definition to_double :: "real \<Rightarrow> real" where
  \<comment> \<open>53 significant bits, exponents from \<open>- 1022\<close>\<close>
  "to_double x =
     (if x = 0 then 0
      else let e = max (exponent \<bar>x\<bar>) (- 1022); q = pow2 (e - 52)
           in real_of_int (round_even (x / q)) * q)"

definition js_minus :: "real \<Rightarrow> real \<Rightarrow> real" where
  \<comment> \<open>\<^verbatim>\<open>a - b\<close> on the doubles that \<open>a\<close> and \<open>b\<close> stand for\<close>
  "js_minus a b = to_double (to_double a - to_double b)"

definition js_divide :: "real \<Rightarrow> real \<Rightarrow> real" where
  \<comment> \<open>\<^verbatim>\<open>a / b\<close> on the doubles that \<open>a\<close> and \<open>b\<close> stand for, \<open>b\<close> not zero\<close>
  "js_divide a b = to_double (to_double a / to_double b)"

section \<open>The quality judge\<close>

datatype eval_method = Llm | Heuristic

record JudgeResult =
  score :: real
  j_method :: eval_method

text \<open>
  The feedback texts of the judge and of the optimizer are assembled for display only; no
  branch of the program reads them, and the records of this theory leave them out.
\<close>

definition bump :: "bool \<Rightarrow> real \<Rightarrow> real \<Rightarrow> real" where
  \<comment> \<open>\<^verbatim>\<open>if (c) { score += w; }\<close>\<close>
  "bump c w s = (if c then s + w else s)"

definition heuristic_raw :: "string \<Rightarrow> real" where
  \<comment> \<open>the value of \<^verbatim>\<open>score\<close> before the cap\<close>
  "heuristic_raw content =
     (let len = length content;
          s = 1.5;
          s = bump (len > 200) 0.3 s;
          s = bump (len > 500) 0.3 s;
          s = bump (len > 1000) 0.3 s;
          s = bump (len < 50) (- 0.3) s;
          s = bump (test_structure content) 0.5 s;
          s = bump (test_fence content) 0.3 s;
          s = bump (test_words [''step'', ''first'', ''second'', ''then'', ''finally'', ''next''] content) 0.3 s;
          s = bump (test_words [''must'', ''should'', ''ensure'', ''always'', ''never'', ''required''] content) 0.4 s;
          s = bump (test_words [''example'', ''e.g.'', ''for instance'', ''such as''] content) 0.3 s;
          s = bump (test_words [''output'', ''format'', ''return'', ''result''] content) 0.3 s;
          s = bump (test_words [''you are'', ''act as'', ''your role'', ''as a''] content) 0.3 s;
          s = bump (test_variable content) 0.2 s;
          s = bump (test_words [''edge case'', ''error'', ''exception'', ''handle'', ''fallback''] content) 0.2 s
      in s)"

definition heuristicScore :: "string \<Rightarrow> JudgeResult" where
  "heuristicScore content =
     \<lparr>score = min 5 (real_of_int (round (heuristic_raw content * 10)) / 10),
      j_method = Heuristic\<rparr>"

subsection \<open>Parsing the reply of the remote model\<close>

fun find_result_digit :: "string \<Rightarrow> char option" where
  \<comment> \<open>\<^verbatim>\<open>output.match(/\[RESULT\]\s*(\d)/)\<close>: the digit captured by the leftmost match\<close>
  "find_result_digit [] = None"
| "find_result_digit (c # cs) =
     (case match_lit ''[RESULT]'' (c # cs) of
        None \<Rightarrow> find_result_digit cs
      | Some r \<Rightarrow>
          (case dropWhile is_space r of
             [] \<Rightarrow> find_result_digit cs
           | d # _ \<Rightarrow> if is_digit d then Some d else find_result_digit cs))"

definition parseInt_digit :: "char \<Rightarrow> int" where
  "parseInt_digit d =
     (case map_of (zip ''0123456789'' [0, 1, 2, 3, 4, 5, 6, 7, 8, 9]) d of
        Some n \<Rightarrow> n
      | None \<Rightarrow> 0)"

definition parseLLMJudgeOutput :: "string \<Rightarrow> real" where
  \<comment> \<open>the \<^verbatim>\<open>score\<close> component of the result\<close>
  "parseLLMJudgeOutput output =
     (let resultMatch = find_result_digit output;
          score = (case resultMatch of Some d \<Rightarrow> parseInt_digit d | None \<Rightarrow> 0);
          finalScore = (case resultMatch of Some _ \<Rightarrow> min 5 (max 1 score) | None \<Rightarrow> 3)
      in real_of_int finalScore)"

datatype winner = WinA | WinB

fun find_result_winner :: "string \<Rightarrow> winner option" where
  \<comment> \<open>\<^verbatim>\<open>output.match(/\[RESULT\]\s*(A|B)/i)\<close>, the capture in upper case\<close>
  "find_result_winner [] = None"
| "find_result_winner (c # cs) =
     (case match_ci ''[RESULT]'' None (c # cs) of
        None \<Rightarrow> find_result_winner cs
      | Some (_, r) \<Rightarrow>
          (case dropWhile is_space r of
             [] \<Rightarrow> find_result_winner cs
           | d # _ \<Rightarrow>
               if ci_eq CHR ''A'' d then Some WinA
               else if ci_eq CHR ''B'' d then Some WinB
               else find_result_winner cs))"

definition parseLLMCompareOutput :: "string \<Rightarrow> winner" where
  \<comment> \<open>the \<^verbatim>\<open>winner\<close> component of the result\<close>
  "parseLLMCompareOutput output =
     (case find_result_winner output of Some w \<Rightarrow> w | None \<Rightarrow> WinB)"

subsection \<open>The judge and the network\<close>

text \<open>
  The network is an oracle: the \<open>n\<close>-th request of a run either fails (the request is
  rejected, times out, or its body cannot be decoded, so that the source's \<^verbatim>\<open>await\<close>
  throws) or yields the text the adapter returns. The field \<open>requests\<close> counts the requests
  issued so far, which makes an attempt on the remote path observable; an attempt that fails
  before anything is sent (an endpoint that does not parse, an unknown adapter style) counts
  as a failed request. The probe succeeds when the server answers at all.
\<close>

datatype reply = Failure | Reply string

record world =
  replies :: "nat \<Rightarrow> reply"
  requests :: nat

definition httpRequest :: "world \<Rightarrow> reply \<times> world" where
  "httpRequest w = (replies w (requests w), w\<lparr>requests := requests w + 1\<rparr>)"

definition world_of :: "reply list \<Rightarrow> world" where
  \<comment> \<open>a network that answers the first requests as listed and fails afterwards\<close>
  "world_of rs = \<lparr>replies = (\<lambda>n. if n < length rs then rs ! n else Failure), requests = 0\<rparr>"

record LLMJudge =
  llmAvailable :: "bool option"

definition checkAvailability :: "LLMJudge \<Rightarrow> world \<Rightarrow> bool \<times> LLMJudge \<times> world" where
  "checkAvailability j w =
     (case httpRequest w of
        (Reply _, w') \<Rightarrow> (True, j\<lparr>llmAvailable := Some True\<rparr>, w')
      | (Failure, w') \<Rightarrow> (False, j\<lparr>llmAvailable := Some False\<rparr>, w'))"

definition probe_if_unknown :: "LLMJudge \<Rightarrow> world \<Rightarrow> LLMJudge \<times> world" where
  \<comment> \<open>\<^verbatim>\<open>if (this.llmAvailable === null) { await this.checkAvailability(); }\<close>\<close>
  "probe_if_unknown j w =
     (if llmAvailable j = None then snd (checkAvailability j w) else (j, w))"

definition scorePrompt :: "string \<Rightarrow> LLMJudge \<Rightarrow> world \<Rightarrow> JudgeResult \<times> LLMJudge \<times> world" where
  "scorePrompt content j w =
     (let (j1, w1) = probe_if_unknown j w in
      if llmAvailable j1 = Some True then
        (case httpRequest w1 of
           (Reply output, w2) \<Rightarrow> (\<lparr>score = parseLLMJudgeOutput output, j_method = Llm\<rparr>, j1, w2)
         | (Failure, w2) \<Rightarrow> (heuristicScore content, j1, w2))
      else (heuristicScore content, j1, w1))"

record Comparison =
  winner :: winner
  cmp_method :: eval_method

definition compareVersions ::
  "string \<Rightarrow> string \<Rightarrow> LLMJudge \<Rightarrow> world \<Rightarrow> Comparison \<times> LLMJudge \<times> world" where
  "compareVersions contentA contentB j w =
     (let (j1, w1) = probe_if_unknown j w;
          fallback =
            (let scoreA = heuristicScore contentA;
                 scoreB = heuristicScore contentB
             in \<lparr>winner = (if score scoreB \<ge> score scoreA then WinB else WinA), cmp_method = Heuristic\<rparr>)
      in
      if llmAvailable j1 = Some True then
        (case httpRequest w1 of
           (Reply output, w2) \<Rightarrow> (\<lparr>winner = parseLLMCompareOutput output, cmp_method = Llm\<rparr>, j1, w2)
         | (Failure, w2) \<Rightarrow> (fallback, j1, w2))
      else (fallback, j1, w1))"

datatype judge_call = Score string | Compare string string

definition judge_step :: "judge_call \<Rightarrow> LLMJudge \<Rightarrow> world \<Rightarrow> eval_method \<times> LLMJudge \<times> world" where
  \<comment> \<open>one call of the judge, reduced to the path it took\<close>
  "judge_step c j w =
     (case c of
        Score content \<Rightarrow> (case scorePrompt content j w of (r, j', w') \<Rightarrow> (j_method r, j', w'))
      | Compare a b \<Rightarrow> (case compareVersions a b j w of (r, j', w') \<Rightarrow> (cmp_method r, j', w')))"

fun judge_run :: "judge_call list \<Rightarrow> LLMJudge \<Rightarrow> world \<Rightarrow> eval_method list \<times> LLMJudge \<times> world" where
  \<comment> \<open>a sequence of calls on one judge\<close>
  "judge_run [] j w = ([], j, w)"
| "judge_run (c # cs) j w =
     (case judge_step c j w of
        (m, j', w') \<Rightarrow> (case judge_run cs j' w' of (ms, j'', w'') \<Rightarrow> (m # ms, j'', w'')))"

section \<open>The similarity retriever and the rule-based transformer\<close>

record CrawledPrompt =
  title :: string
  p_content :: string
  p_source :: string
  sourceId :: string
  category :: string
  tags :: "string list"
  fetchedAt :: string


fun split_ws_from :: "bool \<Rightarrow> string \<Rightarrow> string \<Rightarrow> string list" where
  \<comment> \<open>\<^verbatim>\<open>split(/\s+/)\<close>: the flag says that the last character was white space, the second argument
      is the current piece, reversed\<close>
  "split_ws_from sep cur [] = [rev cur]"
| "split_ws_from sep cur (c # cs) =
     (if is_space c then
        (if sep then split_ws_from True cur cs else rev cur # split_ws_from True [] cs)
      else split_ws_from False (c # cur) cs)"

definition split_ws :: "string \<Rightarrow> string list" where
  "split_ws s = split_ws_from False [] s"

definition keep_char :: "char \<Rightarrow> bool" where
  \<comment> \<open>the characters that \<^verbatim>\<open>replace(/[^a-z0-9\s]/g, '')\<close> keeps\<close>
  "keep_char c = (c \<in> set ''abcdefghijklmnopqrstuvwxyz0123456789'' \<or> is_space c)"

fun new_Set :: "'a list \<Rightarrow> 'a list" where
  \<comment> \<open>\<^verbatim>\<open>new Set(xs)\<close>: the distinct elements in the order of their first occurrence\<close>
  "new_Set [] = []"
| "new_Set (x # xs) = x # new_Set (filter (\<lambda>y. y \<noteq> x) xs)"

definition words_of :: "string \<Rightarrow> string list" where
  "words_of s = new_Set (filter (\<lambda>w. length w > 3) (split_ws (filter keep_char (toLowerCase s))))"

definition similarity :: "string list \<Rightarrow> CrawledPrompt \<Rightarrow> real" where
  "similarity userWords p =
     (let pWords = words_of (title p @ '' '' @ p_content p);
          overlap = length (filter (\<lambda>w. w \<in> set pWords) userWords)
      in js_divide (real overlap) (real (length userWords)))"

definition slice0 :: "int \<Rightarrow> 'a list \<Rightarrow> 'a list" where
  \<comment> \<open>\<^verbatim>\<open>xs.slice(0, n)\<close> for an integer \<open>n\<close>: a negative \<open>n\<close> counts from the end\<close>
  "slice0 n xs =
     (let len = int (length xs);
          final = (if n < 0 then max (len + n) 0 else min n len)
      in take (nat final) xs)"

definition findSimilarPrompts ::
  "string \<Rightarrow> CrawledPrompt list \<Rightarrow> int \<Rightarrow> real \<Rightarrow> CrawledPrompt list" where
  \<comment> \<open>\<^verbatim>\<open>sort\<close> is stable and the comparator orders by descending similarity, which
      \<^const>\<open>sort_key\<close> on the negated key computes; the threshold is the double that the
      argument stands for\<close>
  "findSimilarPrompts userPrompt openSourcePrompts maxResults threshold =
     (let userWords = words_of userPrompt in
      if length userWords = 0 then []
      else
        let scored = map (\<lambda>p. (p, similarity userWords p)) openSourcePrompts
        in map fst
             (slice0 maxResults
                (sort_key (\<lambda>s. - snd s) (filter (\<lambda>s. snd s \<ge> to_double threshold) scored))))"

definition ranked_matches :: "string \<Rightarrow> CrawledPrompt list \<Rightarrow> real \<Rightarrow> CrawledPrompt list" where
  \<comment> \<open>the records that reach the threshold, by descending similarity, equal similarities in
      the order of the corpus: what \<open>findSimilarPrompts\<close> truncates\<close>
  "ranked_matches query corpus threshold =
     sort_key (\<lambda>p. - similarity (words_of query) p)
       (filter (\<lambda>p. similarity (words_of query) p \<ge> to_double threshold) corpus)"

record OptimizationRule =
  name :: string
  check :: "string \<Rightarrow> bool"
  applyRule :: "string \<Rightarrow> string"

definition nl :: string where
  "nl = [CHR 0x0A]"

fun split_on :: "char \<Rightarrow> string \<Rightarrow> string \<Rightarrow> string list" where
  \<comment> \<open>\<^verbatim>\<open>split\<close> on one character; the second argument is the current piece, reversed\<close>
  "split_on d cur [] = [rev cur]"
| "split_on d cur (c # cs) =
     (if c = d then rev cur # split_on d [] cs else split_on d (c # cur) cs)"

definition OPTIMIZATION_RULES :: "OptimizationRule list" where
  "OPTIMIZATION_RULES =
     [\<lparr>name = ''add-role-definition'',
       check = (\<lambda>c. \<not> test_words [''you are'', ''act as'', ''your role'', ''as a''] c),
       applyRule = (\<lambda>c. ''You are an expert AI assistant.'' @ nl @ nl @ c)\<rparr>,
      \<lparr>name = ''add-output-format'',
       check = (\<lambda>c. \<not> test_words
                  [''output'', ''format'', ''return'', ''respond with'', ''response should''] c),
       applyRule = (\<lambda>c. c @ nl @ nl @
                  ''Please structure your response clearly with appropriate formatting.'')\<rparr>,
      \<lparr>name = ''add-constraints'',
       check = (\<lambda>c. \<not> test_words
                  [''must'', ''should'', ''ensure'', ''always'', ''never'', ''required'', ''do not''] c),
       applyRule = (\<lambda>c. c @ nl @ nl @
                  ''Ensure your response is accurate, well-structured, and complete.'')\<rparr>,
      \<lparr>name = ''add-step-structure'',
       check = (\<lambda>c. \<not> test_words
                  [''step'', ''first'', ''second'', ''then'', ''finally'', ''next'', ''1.'', ''2.''] c
                \<and> length c > 100),
       applyRule = (\<lambda>c. c @ nl @ nl @ ''Please approach this step by step.'')\<rparr>,
      \<lparr>name = ''add-edge-cases'',
       check = (\<lambda>c. \<not> test_words
                  [''edge case'', ''error'', ''exception'', ''handle'', ''corner case'', ''fallback''] c
                \<and> length c > 150),
       applyRule = (\<lambda>c. c @ nl @ nl @
                  ''Consider edge cases and potential error scenarios in your response.'')\<rparr>,
      \<lparr>name = ''add-examples-hint'',
       check = (\<lambda>c. \<not> test_words
                  [''example'', ''e.g.'', ''for instance'', ''such as'', ''demonstrate''] c
                \<and> length c > 100),
       applyRule = (\<lambda>c. c @ nl @ nl @ ''Include concrete examples where applicable.'')\<rparr>,
      \<lparr>name = ''add-markdown-structure'',
       check = (\<lambda>c. length c > 300 \<and> \<not> test_heading c \<and> \<not> test_bold c),
       applyRule = (\<lambda>c. let lines = split_on (CHR 0x0A) [] c
                        in if length lines > 5 then ''## Task'' @ nl @ c else c)\<rparr>]"

definition optimizeWithRules :: "string \<Rightarrow> CrawledPrompt list \<Rightarrow> string" where
  "optimizeWithRules content references =
     fold (\<lambda>rule optimized. if check rule optimized then applyRule rule optimized else optimized)
       OPTIMIZATION_RULES content"


section \<open>The version ledger\<close>

text \<open>
  Creation and modification timestamps are wall-clock readings that no operation reads back;
  the records leave them out. \<open>persisted\<close> is the content of the backing file as last written
  by \<open>save\<close>. The histories object of the source is a plain object: \<open>histories\<close> holds its
  own properties, and a lookup that finds no own property goes on to the members that every
  plain object inherits, which are functions or objects, hence truthy, and have no
  \<^verbatim>\<open>versions\<close>.
\<close>

datatype version_source = Manual | AutoOptimize | Import

record PromptVersion =
  version :: int
  content :: string
  judgeScore :: "real option"
  source :: version_source
  inspirationSource :: "string option"
  changeNote :: "string option"

record PromptHistory =
  promptId :: string
  versions :: "PromptVersion list"
  recommendedVersion :: int

record VersionManager =
  histories :: "string \<rightharpoonup> PromptHistory"
  persisted :: "(string \<rightharpoonup> PromptHistory) option"

record AddVersionOpts =
  opt_source :: version_source
  opt_judgeScore :: "real option"
  opt_inspirationSource :: "string option"
  opt_changeNote :: "string option"

definition new_VersionManager :: VersionManager where
  \<comment> \<open>the constructor when no file exists yet\<close>
  "new_VersionManager = \<lparr>histories = Map.empty, persisted = None\<rparr>"

definition save :: "VersionManager \<Rightarrow> VersionManager" where
  "save vm = vm\<lparr>persisted := Some (histories vm)\<rparr>"

definition recalc_step :: "PromptVersion \<Rightarrow> PromptVersion \<Rightarrow> PromptVersion" where
  \<comment> \<open>the body of the loop of \<^verbatim>\<open>recalcRecommended\<close>: the new value of \<^verbatim>\<open>best\<close>\<close>
  "recalc_step best ver =
     (case judgeScore ver of
        None \<Rightarrow> best
      | Some s \<Rightarrow>
          (case judgeScore best of
             None \<Rightarrow> ver
           | Some b \<Rightarrow>
               if s > b then ver
               else if s = b \<and> version ver > version best then ver
               else best))"

definition recalc_history :: "PromptHistory \<Rightarrow> PromptHistory" where
  "recalc_history history =
     (if length (versions history) = 0 then history
      else
        let best = fold (\<lambda>ver best. recalc_step best ver) (versions history) (hd (versions history));
            best = (if judgeScore best = None then last (versions history) else best)
        in history\<lparr>recommendedVersion := version best\<rparr>)"

definition Object_prototype_members :: "string list" where
  \<comment> \<open>the property names of \<^verbatim>\<open>Object.prototype\<close>\<close>
  "Object_prototype_members =
     [''constructor'', ''__defineGetter__'', ''__defineSetter__'', ''hasOwnProperty'',
      ''__lookupGetter__'', ''__lookupSetter__'', ''isPrototypeOf'', ''propertyIsEnumerable'',
      ''toString'', ''valueOf'', ''__proto__'', ''toLocaleString'']"

datatype lookup = Absent | Own PromptHistory | Inherited

datatype exn = TypeError

definition get_history :: "VersionManager \<Rightarrow> string \<Rightarrow> lookup" where
  \<comment> \<open>\<^verbatim>\<open>this.store.histories[promptId]\<close>\<close>
  "get_history vm pid =
     (case histories vm pid of
        Some history \<Rightarrow> Own history
      | None \<Rightarrow> if pid \<in> set Object_prototype_members then Inherited else Absent)"

definition recalcRecommended :: "string \<Rightarrow> VersionManager \<Rightarrow> exn + VersionManager" where
  \<comment> \<open>reading \<^verbatim>\<open>history.versions.length\<close> of an inherited member throws\<close>
  "recalcRecommended pid vm =
     (case get_history vm pid of
        Absent \<Rightarrow> Inr vm
      | Inherited \<Rightarrow> Inl TypeError
      | Own history \<Rightarrow> Inr (vm\<lparr>histories := (histories vm)(pid \<mapsto> recalc_history history)\<rparr>))"

definition initHistory ::
  "string \<Rightarrow> string \<Rightarrow> version_source \<Rightarrow> VersionManager \<Rightarrow> lookup \<times> VersionManager" where
  \<comment> \<open>returns what the lookup found when that is truthy, an inherited member included\<close>
  "initHistory pid text src vm =
     (case get_history vm pid of
        Own existing \<Rightarrow> (Own existing, vm)
      | Inherited \<Rightarrow> (Inherited, vm)
      | Absent \<Rightarrow>
          let history =
                \<lparr>promptId = pid,
                 versions = [\<lparr>version = 1, content = text, judgeScore = None, source = src,
                              inspirationSource = None, changeNote = None\<rparr>],
                 recommendedVersion = 1\<rparr>
          in (Own history, save (vm\<lparr>histories := (histories vm)(pid \<mapsto> history)\<rparr>)))"

definition addVersion ::
  "string \<Rightarrow> string \<Rightarrow> AddVersionOpts \<Rightarrow> VersionManager
     \<Rightarrow> (exn + PromptVersion option) \<times> VersionManager" where
  "addVersion pid text opts vm =
     (case get_history vm pid of
        Absent \<Rightarrow> (Inr None, vm)
      | Inherited \<Rightarrow> (Inl TypeError, vm)
      | Own history \<Rightarrow>
          let nextVersion =
                (if length (versions history) > 0 then version (last (versions history)) + 1 else 1);
              ver = \<lparr>version = nextVersion, content = text, judgeScore = opt_judgeScore opts,
                     source = opt_source opts, inspirationSource = opt_inspirationSource opts,
                     changeNote = opt_changeNote opts\<rparr>;
              pushed = history\<lparr>versions := versions history @ [ver]\<rparr>;
              vm1 = vm\<lparr>histories := (histories vm)(pid \<mapsto> pushed)\<rparr>
          in (case recalcRecommended pid vm1 of
                Inl e \<Rightarrow> (Inl e, vm1)
              | Inr vm2 \<Rightarrow> (Inr (Some ver), save vm2)))"

fun update_first :: "('a \<Rightarrow> bool) \<Rightarrow> ('a \<Rightarrow> 'a) \<Rightarrow> 'a list \<Rightarrow> 'a list option" where
  \<comment> \<open>\<^verbatim>\<open>find\<close> the first element that satisfies the predicate and assign to it in place;
      \<open>None\<close> when \<^verbatim>\<open>find\<close> returns \<^verbatim>\<open>undefined\<close>\<close>
  "update_first P f [] = None"
| "update_first P f (x # xs) =
     (if P x then Some (f x # xs) else map_option ((#) x) (update_first P f xs))"

definition setScore ::
  "string \<Rightarrow> int \<Rightarrow> real \<Rightarrow> VersionManager \<Rightarrow> (exn + bool) \<times> VersionManager" where
  "setScore pid ordinal sc vm =
     (case get_history vm pid of
        Absent \<Rightarrow> (Inr False, vm)
      | Inherited \<Rightarrow> (Inl TypeError, vm)
      | Own history \<Rightarrow>
          (case update_first (\<lambda>v. version v = ordinal) (\<lambda>v. v\<lparr>judgeScore := Some sc\<rparr>)
                  (versions history) of
             None \<Rightarrow> (Inr False, vm)
           | Some vs \<Rightarrow>
               let vm1 = vm\<lparr>histories := (histories vm)(pid \<mapsto> history\<lparr>versions := vs\<rparr>)\<rparr>
               in (case recalcRecommended pid vm1 of
                     Inl e \<Rightarrow> (Inl e, vm1)
                   | Inr vm2 \<Rightarrow> (Inr True, save vm2))))"

datatype ledger_op =
  InitHistory string string version_source
| AddVersion string string AddVersionOpts
| SetScore string int real

definition run_op :: "ledger_op \<Rightarrow> VersionManager \<Rightarrow> VersionManager" where
  \<comment> \<open>the state after one call, whether it returns or throws\<close>
  "run_op op vm =
     (case op of
        InitHistory pid text src \<Rightarrow> snd (initHistory pid text src vm)
      | AddVersion pid text opts \<Rightarrow> snd (addVersion pid text opts vm)
      | SetScore pid ordinal sc \<Rightarrow> snd (setScore pid ordinal sc vm))"

definition run_ops :: "ledger_op list \<Rightarrow> VersionManager \<Rightarrow> VersionManager" where
  \<comment> \<open>a sequence of operations, the first of the list first\<close>
  "run_ops ops vm = fold run_op ops vm"

definition preserved :: "PromptVersion \<Rightarrow> PromptVersion \<Rightarrow> bool" where
  \<comment> \<open>a later state of a version: same ordinal, same content, and a score if it had one\<close>
  "preserved old new =
     (version new = version old \<and> content new = content old
      \<and> (judgeScore old \<noteq> None \<longrightarrow> judgeScore new \<noteq> None))"

definition extends :: "PromptHistory \<Rightarrow> PromptHistory \<Rightarrow> bool" where
  \<comment> \<open>the later history keeps every version of the earlier one, at its position\<close>
  "extends h h' =
     (length (versions h) \<le> length (versions h')
      \<and> list_all2 preserved (versions h) (take (length (versions h)) (versions h')))"

definition no_better :: "PromptVersion \<Rightarrow> PromptVersion \<Rightarrow> bool" where
  \<comment> \<open>\<open>w\<close> does not displace the scored version \<open>v\<close>: it has no score, a lower score, or
      the same score and no higher ordinal\<close>
  "no_better w v =
     (case judgeScore w of
        None \<Rightarrow> True
      | Some t \<Rightarrow> t < the (judgeScore v) \<or> (t = the (judgeScore v) \<and> version w \<le> version v))"

definition spec_recommended :: "PromptVersion list \<Rightarrow> int \<Rightarrow> bool" where
  \<comment> \<open>The recommendation as the specification words it: the ordinal of the version with the
      highest score, the higher ordinal among equal scores; the ordinal of the latest version
      when no version has a score.\<close>
  "spec_recommended vs r =
     (if list_all (\<lambda>v. judgeScore v = None) vs then r = version (last vs)
      else list_ex (\<lambda>v. version v = r \<and> judgeScore v \<noteq> None \<and> list_all (\<lambda>w. no_better w v) vs) vs)"

abbreviation (input) recalc_fold :: "PromptVersion list \<Rightarrow> PromptVersion \<Rightarrow> PromptVersion" where
  "recalc_fold \<equiv> fold (\<lambda>ver best. recalc_step best ver)"

definition hist_ok :: "PromptHistory \<Rightarrow> bool" where
  \<comment> \<open>the invariant of a history: not empty, ordinals 1, 2, 3, ... without gap, and the
      recommendation in place\<close>
  "hist_ok h =
     (versions h \<noteq> []
      \<and> (\<forall>i < length (versions h). version (versions h ! i) = int i + 1)
      \<and> spec_recommended (versions h) (recommendedVersion h))"

definition scenario_D :: "ledger_op list" where
  \<comment> \<open>three versions, scored 3.0, 4.5 and 4.5\<close>
  "scenario_D =
     [InitHistory ''p1'' ''Version 1 content'' Manual,
      AddVersion ''p1'' ''Version 2 content''
        \<lparr>opt_source = AutoOptimize, opt_judgeScore = None, opt_inspirationSource = None,
         opt_changeNote = None\<rparr>,
      AddVersion ''p1'' ''Version 3 content''
        \<lparr>opt_source = AutoOptimize, opt_judgeScore = None, opt_inspirationSource = None,
         opt_changeNote = None\<rparr>,
      SetScore ''p1'' 1 3.0,
      SetScore ''p1'' 2 4.5,
      SetScore ''p1'' 3 4.5]"

section \<open>The optimization orchestrator\<close>

record OptimizerConfig =
  maxReferences :: int
  similarityThreshold :: real

record PromptOptimizer =
  judge :: LLMJudge
  config :: OptimizerConfig
  cachedOpenSourcePrompts :: "CrawledPrompt list"

definition DEFAULT_OPTIMIZER_CONFIG :: OptimizerConfig where
  "DEFAULT_OPTIMIZER_CONFIG = \<lparr>maxReferences = 5, similarityThreshold = 0.1\<rparr>"

definition new_PromptOptimizer :: PromptOptimizer where
  \<comment> \<open>the constructor without arguments: availability unknown, nothing cached\<close>
  "new_PromptOptimizer =
     \<lparr>judge = \<lparr>llmAvailable = None\<rparr>, config = DEFAULT_OPTIMIZER_CONFIG,
      cachedOpenSourcePrompts = []\<rparr>"

text \<open>
  \<open>abComparison\<close> stands for the line that the source appends to the feedback exactly when it
  ran the A/B comparison; it holds the winner of that comparison.
\<close>

record OptimizationResult =
  originalContent :: string
  optimizedContent :: string
  originalScore :: real
  optimizedScore :: real
  improved :: bool
  abComparison :: "winner option"
  inspirationSources :: "string list"
  result_method :: eval_method

definition optimizePrompt ::
  "string \<Rightarrow> PromptOptimizer \<Rightarrow> world \<Rightarrow> OptimizationResult \<times> PromptOptimizer \<times> world" where
  "optimizePrompt text opt w =
     (let references = findSimilarPrompts text (cachedOpenSourcePrompts opt)
                         (maxReferences (config opt)) (similarityThreshold (config opt));
          optimizedText = optimizeWithRules text references;
          (originalResult, j1, w1) = scorePrompt text (judge opt) w;
          (optimizedResult, j2, w2) = scorePrompt optimizedText j1 w1;
          improved0 = (score optimizedResult > score originalResult);
          (improved1, ab, j3, w3) =
            (if \<bar>js_minus (score optimizedResult) (score originalResult)\<bar> < 0.5
                \<and> optimizedText \<noteq> text then
               (case compareVersions text optimizedText j2 w2 of
                  (comparison, j3, w3) \<Rightarrow> (winner comparison = WinB, Some (winner comparison), j3, w3))
             else (improved0, None, j2, w2))
      in (\<lparr>originalContent = text,
           optimizedContent = optimizedText,
           originalScore = score originalResult,
           optimizedScore = score optimizedResult,
           improved = improved1,
           abComparison = ab,
           inspirationSources = map p_source references,
           result_method = j_method originalResult\<rparr>,
          opt\<lparr>judge := j3\<rparr>, w3))"

fun join_with :: "string \<Rightarrow> string list \<Rightarrow> string" where
  "join_with sep [] = []"
| "join_with sep [x] = x"
| "join_with sep (x # y # ys) = x @ sep @ join_with sep (y # ys)"

definition optimizeAndVersion ::
  "string \<Rightarrow> string \<Rightarrow> VersionManager \<Rightarrow> PromptOptimizer \<Rightarrow> world
     \<Rightarrow> (exn + OptimizationResult) \<times> VersionManager \<times> PromptOptimizer \<times> world" where
  \<comment> \<open>the change note of the source continues with the feedback text; an exception of the
      ledger leaves the function at once\<close>
  "optimizeAndVersion pid text vm opt w =
     (case optimizePrompt text opt w of
        (result, opt', w') \<Rightarrow>
          if improved result then
            (case addVersion pid (optimizedContent result)
                    \<lparr>opt_source = AutoOptimize,
                     opt_judgeScore = Some (optimizedScore result),
                     opt_inspirationSource = Some (join_with '', '' (inspirationSources result)),
                     opt_changeNote = Some ''Auto-optimized: ''\<rparr> vm of
               (Inl e, vm1) \<Rightarrow> (Inl e, vm1, opt', w')
             | (Inr _, vm1) \<Rightarrow>
                 (case get_history vm1 pid of
                    Absent \<Rightarrow> (Inr result, vm1, opt', w')
                  | Inherited \<Rightarrow> (Inl TypeError, vm1, opt', w')
                  | Own history \<Rightarrow>
                      (case find (\<lambda>v. content v = text) (versions history) of
                         None \<Rightarrow> (Inr result, vm1, opt', w')
                       | Some origVer \<Rightarrow>
                           if judgeScore origVer = None then
                             (case setScore pid (version origVer) (originalScore result) vm1 of
                                (Inl e, vm2) \<Rightarrow> (Inl e, vm2, opt', w')
                              | (Inr _, vm2) \<Rightarrow> (Inr result, vm2, opt', w'))
                           else (Inr result, vm1, opt', w'))))
          else (Inr result, vm, opt', w'))"

section \<open>The update controller\<close>

text \<open>
  The prompt provider is called once per cycle and has no effect of its own, so it is given by
  the outcome of that call: the message of the error it throws, or the list it returns. The
  events of a scheduler are collected in \<open>emitted\<close>, in the order of emission, without their
  timestamps. Failures of the file system are outside the model, so the only exception inside
  the loop of the cycle is the one of the ledger.
\<close>

record UserPrompt =
  u_id :: string
  u_content :: string
  usageCount :: int

record SchedulerConfig =
  maxOptimizePerCycle :: int
  minUsageForOptimize :: int

datatype SchedulerEvent =
  CrawlStart | CrawlDone string | OptimizeStart | OptimizeDone nat nat | Error string

record UpdateScheduler =
  sched_config :: SchedulerConfig
  optimizer :: PromptOptimizer
  versionManager :: "VersionManager option"
  getPromptsFn :: "(string + UserPrompt list) option"
  emitted :: "SchedulerEvent list"
  optimizeCount :: nat

definition emit :: "SchedulerEvent \<Rightarrow> UpdateScheduler \<Rightarrow> UpdateScheduler" where
  "emit e s = s\<lparr>emitted := emitted s @ [e]\<rparr>"

definition optimize_one ::
  "UserPrompt \<Rightarrow> PromptOptimizer \<Rightarrow> VersionManager option \<Rightarrow> world
     \<Rightarrow> (exn + OptimizationResult) \<times> PromptOptimizer \<times> VersionManager option \<times> world" where
  \<comment> \<open>the body of the inner \<^verbatim>\<open>try\<close>\<close>
  "optimize_one p opt vm w =
     (case vm of
        Some m \<Rightarrow>
          (case optimizeAndVersion (u_id p) (u_content p) m opt w of
             (r, m', opt', w') \<Rightarrow> (r, opt', Some m', w'))
      | None \<Rightarrow>
          (case optimizePrompt (u_content p) opt w of
             (r, opt', w') \<Rightarrow> (Inr r, opt', None, w')))"

fun optimize_each ::
  "UserPrompt list \<Rightarrow> PromptOptimizer \<Rightarrow> VersionManager option \<Rightarrow> world
     \<Rightarrow> OptimizationResult list \<times> PromptOptimizer \<times> VersionManager option \<times> world" where
  \<comment> \<open>the loop over the selected prompts: an item that throws is caught and leaves no result\<close>
  "optimize_each [] opt vm w = ([], opt, vm, w)"
| "optimize_each (p # ps) opt vm w =
     (case optimize_one p opt vm w of
        (outcome, opt', vm', w') \<Rightarrow>
          (case optimize_each ps opt' vm' w' of
             (rs, opt'', vm'', w'') \<Rightarrow>
               ((case outcome of Inl e \<Rightarrow> rs | Inr r \<Rightarrow> r # rs), opt'', vm'', w'')))"

definition may_throw :: "VersionManager option \<Rightarrow> UserPrompt \<Rightarrow> bool" where
  \<comment> \<open>the prompts whose optimization can raise the exception of the ledger: with a version
      manager, those whose identifier finds an inherited member\<close>
  "may_throw vm p = (case vm of None \<Rightarrow> False | Some m \<Rightarrow> get_history m (u_id p) = Inherited)"

definition runOptimizeCycle ::
  "UpdateScheduler \<Rightarrow> world \<Rightarrow> OptimizationResult list \<times> UpdateScheduler \<times> world" where
  "runOptimizeCycle s w =
     (case getPromptsFn s of
        None \<Rightarrow> ([], s, w)
      | Some provided \<Rightarrow>
          let s1 = emit OptimizeStart s in
          (case provided of
             Inl message \<Rightarrow> ([], emit (Error (''Optimize error: '' @ message)) s1, w)
           | Inr all_prompts \<Rightarrow>
               let prompts = slice0 (maxOptimizePerCycle (sched_config s1))
                               (filter (\<lambda>p. usageCount p \<ge> minUsageForOptimize (sched_config s1))
                                  all_prompts)
               in (case optimize_each prompts (optimizer s1) (versionManager s1) w of
                     (results, opt', vm', w') \<Rightarrow>
                       let s2 = s1\<lparr>optimizer := opt', versionManager := vm',
                                    optimizeCount := optimizeCount s1 + 1\<rparr>;
                           n_improved = length (filter improved results)
                       in (results, emit (OptimizeDone (length results) n_improved) s2, w'))))"

definition scenario_E :: "int \<Rightarrow> UpdateScheduler" where
  \<comment> \<open>a scheduler without version manager whose provider returns three prompts used 3, 5
      and 0 times, with a minimum usage of 1 and the given maximum per cycle\<close>
  "scenario_E maxPerCycle =
     \<lparr>sched_config = \<lparr>maxOptimizePerCycle = maxPerCycle, minUsageForOptimize = 1\<rparr>,
      optimizer = new_PromptOptimizer,
      versionManager = None,
      getPromptsFn = Some (Inr
        [\<lparr>u_id = ''user-1'', u_content = ''Write a sorting function'', usageCount = 3\<rparr>,
         \<lparr>u_id = ''user-2'', u_content = ''Help me debug this code'', usageCount = 5\<rparr>,
         \<lparr>u_id = ''user-3'', u_content = ''Explain recursion'', usageCount = 0\<rparr>]),
      emitted = [],
      optimizeCount = 0\<rparr>"

section \<open>The heuristic scorer stays in range\<close>

lemma bump_of_bool: "bump c w s = s + w * of_bool c"
  by (simp add: bump_def)

lemma of_bool_unit: "0 \<le> (of_bool c :: real) \<and> (of_bool c :: real) \<le> 1"
  by simp

lemma weighted_sum_bounds:
  fixes a :: real
  assumes "0 \<le> a \<and> a \<le> 1" "0 \<le> b \<and> b \<le> 1" "0 \<le> c \<and> c \<le> 1" "0 \<le> d \<and> d \<le> 1"
    "0 \<le> e \<and> e \<le> 1" "0 \<le> f \<and> f \<le> 1" "0 \<le> g \<and> g \<le> 1" "0 \<le> h \<and> h \<le> 1"
    "0 \<le> i \<and> i \<le> 1" "0 \<le> j \<and> j \<le> 1" "0 \<le> k \<and> k \<le> 1" "0 \<le> l \<and> l \<le> 1" "0 \<le> m \<and> m \<le> 1"
  shows "1.2 \<le> 1.5 + 0.3 * a + 0.3 * b + 0.3 * c + - 0.3 * d + 0.5 * e + 0.3 * f + 0.3 * g + 0.4 * h
            + 0.3 * i + 0.3 * j + 0.3 * k + 0.2 * l + 0.2 * m
       \<and> 1.5 + 0.3 * a + 0.3 * b + 0.3 * c + - 0.3 * d + 0.5 * e + 0.3 * f + 0.3 * g + 0.4 * h
            + 0.3 * i + 0.3 * j + 0.3 * k + 0.2 * l + 0.2 * m \<le> 5.2"
  using assms by linarith

lemma heuristic_raw_bounds: "1.2 \<le> heuristic_raw t \<and> heuristic_raw t \<le> 5.2"
  unfolding heuristic_raw_def Let_def bump_of_bool
  by (rule weighted_sum_bounds; rule of_bool_unit)

lemma round_tenths_lower:
  fixes x :: real
  assumes "1.2 \<le> x"
  shows "1.2 \<le> real_of_int (round (x * 10)) / 10"
proof -
  have "round (12::real) \<le> round (x * 10)"
    by (rule round_mono) (use assms in simp)
  then have "12 \<le> round (x * 10)" by simp
  then have "(12::real) \<le> real_of_int (round (x * 10))" by linarith
  then show ?thesis by simp
qed

lemma heuristicScore_lower: "1.2 \<le> score (heuristicScore t)"
  using round_tenths_lower [of "heuristic_raw t"] heuristic_raw_bounds [of t]
  by (simp add: heuristicScore_def)

lemma heuristicScore_tenths: "\<exists>k::int. score (heuristicScore t) = real_of_int k / 10"
proof (cases "real_of_int (round (heuristic_raw t * 10)) / 10 \<le> 5")
  case True
  then have "score (heuristicScore t) = real_of_int (round (heuristic_raw t * 10)) / 10"
    by (simp add: heuristicScore_def)
  then show ?thesis by blast
next
  case False
  then have "score (heuristicScore t) = real_of_int 50 / 10"
    by (simp add: heuristicScore_def)
  then show ?thesis by blast
qed

lemma method_heuristicScore: "j_method (heuristicScore t) = Heuristic"
  by (simp add: heuristicScore_def)

lemma fix_the_bug_score: "score (heuristicScore ''Fix the bug'') = 1.2"
  by code_simp

lemma refactor_code_score: "score (heuristicScore ''Refactor code'') = 1.2"
  by code_simp

text \<open>
  Claim C7. For every text, the score of \<open>heuristicScore\<close> lies between 1 and 5, it is a
  value rounded to one decimal (a whole number of tenths) capped at 5, and the same text always
  gets the same result: \<open>heuristicScore\<close> reads nothing but its argument, and the regular
  expressions of the source are created afresh at every call without the flags \<^verbatim>\<open>g\<close> or
  \<^verbatim>\<open>y\<close>, so that no match position survives a call.
\<close>

theorem heuristicScore_range:
  "1 \<le> score (heuristicScore t) \<and> score (heuristicScore t) \<le> 5
   \<and> (\<exists>k::int. score (heuristicScore t) = real_of_int k / 10)
   \<and> score (heuristicScore t) = min 5 (real_of_int (round (heuristic_raw t * 10)) / 10)
   \<and> (\<forall>t'. t' = t \<longrightarrow> heuristicScore t' = heuristicScore t)"
proof -
  have "1 \<le> score (heuristicScore t)"
    using heuristicScore_lower [of t] by simp
  moreover have "score (heuristicScore t) \<le> 5"
    by (simp add: heuristicScore_def)
  moreover have "score (heuristicScore t) = min 5 (real_of_int (round (heuristic_raw t * 10)) / 10)"
    by (simp add: heuristicScore_def)
  ultimately show ?thesis
    using heuristicScore_tenths [of t] by simp
qed

theorem heuristicScore_range_witness:
  "score (heuristicScore ''Fix the bug'') = 1.2
   \<and> 1 \<le> score (heuristicScore ''Fix the bug'') \<and> score (heuristicScore ''Fix the bug'') \<le> 5
   \<and> heuristicScore ''Fix the bug'' = heuristicScore ''Fix the bug''"
  using heuristicScore_range [of "''Fix the bug''"] fix_the_bug_score by simp

section \<open>The two paths of the judge\<close>

lemma scorePrompt_cases:
  "scorePrompt t j w =
     (case probe_if_unknown j w of (j1, w1) \<Rightarrow>
        if llmAvailable j1 = Some True then
          (case replies w1 (requests w1) of
             Reply output \<Rightarrow>
               (\<lparr>score = parseLLMJudgeOutput output, j_method = Llm\<rparr>, j1,
                w1\<lparr>requests := requests w1 + 1\<rparr>)
           | Failure \<Rightarrow> (heuristicScore t, j1, w1\<lparr>requests := requests w1 + 1\<rparr>))
        else (heuristicScore t, j1, w1))"
  by (simp add: scorePrompt_def httpRequest_def Let_def split: prod.splits reply.splits)

lemma compareVersions_cases:
  "compareVersions a b j w =
     (case probe_if_unknown j w of (j1, w1) \<Rightarrow>
        if llmAvailable j1 = Some True then
          (case replies w1 (requests w1) of
             Reply output \<Rightarrow>
               (\<lparr>winner = parseLLMCompareOutput output, cmp_method = Llm\<rparr>, j1,
                w1\<lparr>requests := requests w1 + 1\<rparr>)
           | Failure \<Rightarrow>
               (\<lparr>winner = (if score (heuristicScore b) \<ge> score (heuristicScore a)
                            then WinB else WinA),
                 cmp_method = Heuristic\<rparr>, j1, w1\<lparr>requests := requests w1 + 1\<rparr>))
        else (\<lparr>winner = (if score (heuristicScore b) \<ge> score (heuristicScore a)
                          then WinB else WinA),
               cmp_method = Heuristic\<rparr>, j1, w1))"
  by (simp add: compareVersions_def httpRequest_def Let_def split: prod.splits reply.splits)

text \<open>
  Claim C10. When \<open>compareVersions\<close> answers on the deterministic path (as it does whenever
  the remote judge is known to be unavailable), the winner is B exactly when the heuristic
  score of the second text is at least that of the first; an exact tie goes to B.
\<close>

theorem compareVersions_fallback:
  "(llmAvailable j = Some False \<longrightarrow> cmp_method (fst (compareVersions a b j w)) = Heuristic)
   \<and> (cmp_method (fst (compareVersions a b j w)) = Heuristic \<longrightarrow>
        (winner (fst (compareVersions a b j w)) = WinB)
          = (score (heuristicScore b) \<ge> score (heuristicScore a)))
   \<and> (cmp_method (fst (compareVersions a b j w)) = Heuristic
        \<and> score (heuristicScore b) = score (heuristicScore a) \<longrightarrow>
        winner (fst (compareVersions a b j w)) = WinB)"
  by (auto simp: compareVersions_cases probe_if_unknown_def split: prod.splits reply.splits if_splits)

theorem compareVersions_fallback_witness:
  "llmAvailable \<lparr>llmAvailable = Some False\<rparr> = Some False
   \<and> cmp_method (fst (compareVersions ''Fix the bug'' ''Refactor code''
                        \<lparr>llmAvailable = Some False\<rparr> (world_of []))) = Heuristic
   \<and> score (heuristicScore ''Refactor code'') = score (heuristicScore ''Fix the bug'')
   \<and> winner (fst (compareVersions ''Fix the bug'' ''Refactor code''
                    \<lparr>llmAvailable = Some False\<rparr> (world_of []))) = WinB"
  using compareVersions_fallback
          [of "\<lparr>llmAvailable = Some False\<rparr>" "''Fix the bug''" "''Refactor code''" "world_of []"]
        fix_the_bug_score refactor_code_score
  by simp

section \<open>The transformer only adds text\<close>

lemma rule_additive:
  "r \<in> set OPTIMIZATION_RULES \<Longrightarrow>
     (\<exists>pre. applyRule r c = pre @ c) \<or> (\<exists>post. applyRule r c = c @ post)"
  by (auto simp: OPTIMIZATION_RULES_def Let_def)

lemma fold_rules_additive:
  assumes "\<And>r c. r \<in> set rules \<Longrightarrow>
             (\<exists>pre. applyRule r c = pre @ c) \<or> (\<exists>post. applyRule r c = c @ post)"
  shows "\<exists>pre post.
           fold (\<lambda>rule optimized. if check rule optimized then applyRule rule optimized
                                   else optimized) rules t
           = pre @ t @ post"
  using assms
proof (induction rules arbitrary: t)
  case Nil
  have "t = [] @ t @ []" by simp
  then show ?case by (metis fold_simps(1))
next
  case (Cons r rules)
  let ?step = "\<lambda>rule optimized. if check rule optimized then applyRule rule optimized
                                  else optimized"
  obtain p1 s1 where one: "?step r t = p1 @ t @ s1"
  proof (cases "check r t")
    case False
    then have "?step r t = [] @ t @ []" by simp
    then show ?thesis using that by blast
  next
    case True
    from Cons.prems [of r t]
    consider pre where "applyRule r t = pre @ t" | post where "applyRule r t = t @ post"
      by auto
    then show ?thesis
    proof cases
      case 1
      then have "?step r t = pre @ t @ []" using True by simp
      then show ?thesis using that by blast
    next
      case 2
      then have "?step r t = [] @ t @ post" using True by simp
      then show ?thesis using that by blast
    qed
  qed
  from Cons.IH [of "?step r t"] Cons.prems
  obtain p2 s2 where rest: "fold ?step rules (?step r t) = p2 @ ?step r t @ s2"
    by (meson list.set_intros(2))
  have "fold ?step (r # rules) t = (p2 @ p1) @ t @ (s1 @ s2)"
    using one rest by simp
  then show ?case by blast
qed

text \<open>
  Claim C4. For every text \<open>t\<close> and every list of references, the output of
  \<open>optimizeWithRules\<close> contains \<open>t\<close> as a contiguous substring, because each rule of the
  catalogue returns its argument with text put in front of it or behind it.
\<close>

theorem optimizeWithRules_additive:
  "sublist t (optimizeWithRules t refs)
   \<and> (\<forall>r \<in> set OPTIMIZATION_RULES. \<forall>c.
        (\<exists>pre. applyRule r c = pre @ c) \<or> (\<exists>post. applyRule r c = c @ post))"
proof -
  have "\<exists>pre post. optimizeWithRules t refs = pre @ t @ post"
    unfolding optimizeWithRules_def by (rule fold_rules_additive) (rule rule_additive)
  then have "sublist t (optimizeWithRules t refs)"
    by (auto simp: sublist_def)
  then show ?thesis
    using rule_additive by blast
qed

theorem optimizeWithRules_additive_witness:
  "hd OPTIMIZATION_RULES \<in> set OPTIMIZATION_RULES
   \<and> sublist ''Fix the bug'' (optimizeWithRules ''Fix the bug'' [])
   \<and> ((\<exists>pre. applyRule (hd OPTIMIZATION_RULES) ''Fix the bug'' = pre @ ''Fix the bug'')
        \<or> (\<exists>post. applyRule (hd OPTIMIZATION_RULES) ''Fix the bug'' = ''Fix the bug'' @ post))"
proof -
  have mem: "hd OPTIMIZATION_RULES \<in> set OPTIMIZATION_RULES"
    by (simp add: OPTIMIZATION_RULES_def)
  show ?thesis
    using optimizeWithRules_additive [of "''Fix the bug''" "[]"] mem by blast
qed

section \<open>The retriever\<close>

lemma insort_key_map:
  "insort_key f (g x) (map g ys) = map g (insort_key (\<lambda>a. f (g a)) x ys)"
  by (induction ys) simp_all

lemma sort_key_map: "sort_key f (map g xs) = map g (sort_key (\<lambda>a. f (g a)) xs)"
  by (induction xs) (simp_all add: insort_key_map)


lemma slice0_nonneg: "0 \<le> n \<Longrightarrow> slice0 n xs = take (nat n) xs"
  by (simp add: slice0_def Let_def min_def)

lemma slice0_neg: "n < 0 \<Longrightarrow> slice0 n xs = take (length xs - nat (- n)) xs"
  by (auto simp: slice0_def Let_def max_def nat_diff_distrib' intro: arg_cong)

lemma slice0_map: "slice0 n (map f xs) = map f (slice0 n xs)"
  by (simp add: slice0_def Let_def take_map)

lemma findSimilarPrompts_eq:
  "findSimilarPrompts query corpus maxResults threshold =
     (if words_of query = [] then []
      else slice0 maxResults (ranked_matches query corpus threshold))"
proof -
  let ?q = "words_of query"
  have "map fst (slice0 maxResults (sort_key (\<lambda>s. - snd s)
          (filter (\<lambda>s. snd s \<ge> to_double threshold) (map (\<lambda>p. (p, similarity ?q p)) corpus))))
        = slice0 maxResults (ranked_matches query corpus threshold)"
    by (simp add: slice0_map [symmetric] filter_map sort_key_map comp_def ranked_matches_def)
  then show ?thesis
    by (simp add: findSimilarPrompts_def Let_def)
qed










section \<open>Availability of the remote judge\<close>

lemma judge_step_unavailable:
  "llmAvailable j = Some False \<Longrightarrow> judge_step c j w = (Heuristic, j, w)"
  by (cases c)
     (simp_all add: judge_step_def scorePrompt_cases compareVersions_cases probe_if_unknown_def
        method_heuristicScore)

lemma judge_run_unavailable:
  "llmAvailable j = Some False \<Longrightarrow> judge_run cs j w = (replicate (length cs) Heuristic, j, w)"
  by (induction cs) (simp_all add: judge_step_unavailable)

lemma judge_step_failed_probe:
  assumes "llmAvailable j = None" "replies w (requests w) = Failure"
  shows "judge_step c j w
           = (Heuristic, j\<lparr>llmAvailable := Some False\<rparr>, w\<lparr>requests := requests w + 1\<rparr>)"
  using assms
  by (cases c)
     (simp_all add: judge_step_def scorePrompt_cases compareVersions_cases probe_if_unknown_def
        checkAvailability_def httpRequest_def method_heuristicScore)

lemma judge_step_failed_call:
  assumes "llmAvailable j = Some True" "replies w (requests w) = Failure"
  shows "judge_step c j w = (Heuristic, j, w\<lparr>requests := requests w + 1\<rparr>)"
  using assms
  by (cases c)
     (simp_all add: judge_step_def scorePrompt_cases compareVersions_cases probe_if_unknown_def
        method_heuristicScore)

lemma judge_step_answered_call:
  assumes "llmAvailable j = Some True" "replies w (requests w) = Reply out"
  shows "judge_step c j w = (Llm, j, w\<lparr>requests := requests w + 1\<rparr>)"
  using assms
  by (cases c)
     (simp_all add: judge_step_def scorePrompt_cases compareVersions_cases probe_if_unknown_def)

lemma scorePrompt_heuristic_result:
  "j_method (fst (scorePrompt t j w)) = Heuristic \<Longrightarrow> fst (scorePrompt t j w) = heuristicScore t"
  by (auto simp: scorePrompt_cases split: prod.splits if_splits reply.splits)

text \<open>
  Claim C5, as the code has it. A call of \<open>scorePrompt\<close> or \<open>compareVersions\<close> whose remote
  request fails answers on the deterministic path for that call. Only a failed probe is sticky:
  once the availability flag is false, every later call answers on the deterministic path and
  issues no request. A failed remote call leaves the flag as it was, so with the flag true the
  next call attempts the remote path again, and answers through it when the request succeeds.
\<close>

theorem judge_fallback:
  "(llmAvailable j = Some False \<longrightarrow>
      judge_run cs j w = (replicate (length cs) Heuristic, j, w))
   \<and> (llmAvailable j = None \<and> replies w (requests w) = Failure \<longrightarrow>
        judge_step c j w
          = (Heuristic, j\<lparr>llmAvailable := Some False\<rparr>, w\<lparr>requests := requests w + 1\<rparr>))
   \<and> (llmAvailable j = Some True \<and> replies w (requests w) = Failure \<longrightarrow>
        judge_step c j w = (Heuristic, j, w\<lparr>requests := requests w + 1\<rparr>))
   \<and> (llmAvailable j = Some True \<and> replies w (requests w) = Failure
        \<and> replies w (requests w + 1) = Reply out \<longrightarrow>
        judge_run [c, c'] j w = ([Heuristic, Llm], j, w\<lparr>requests := requests w + 2\<rparr>))
   \<and> (j_method (fst (scorePrompt t j w)) = Heuristic \<longrightarrow>
        fst (scorePrompt t j w) = heuristicScore t)"
proof -
  have again: "judge_run [c, c'] j w = ([Heuristic, Llm], j, w\<lparr>requests := requests w + 2\<rparr>)"
    if "llmAvailable j = Some True" "replies w (requests w) = Failure"
       "replies w (requests w + 1) = Reply out"
  proof -
    have first: "judge_step c j w = (Heuristic, j, w\<lparr>requests := requests w + 1\<rparr>)"
      using that by (simp add: judge_step_failed_call)
    have second: "judge_step c' j (w\<lparr>requests := requests w + 1\<rparr>)
                    = (Llm, j, w\<lparr>requests := requests w + 2\<rparr>)"
      using that judge_step_answered_call [of j "w\<lparr>requests := requests w + 1\<rparr>" out c']
      by simp
    show ?thesis using first second by simp
  qed
  show ?thesis
    using judge_run_unavailable judge_step_failed_probe judge_step_failed_call again
      scorePrompt_heuristic_result
    by blast
qed

theorem judge_fallback_witness:
  "llmAvailable \<lparr>llmAvailable = Some False\<rparr> = Some False
   \<and> judge_run [Score ''Fix the bug'', Compare ''Fix the bug'' ''Refactor code'']
        \<lparr>llmAvailable = Some False\<rparr> (world_of [Reply ''Good. [RESULT] 4''])
      = ([Heuristic, Heuristic], \<lparr>llmAvailable = Some False\<rparr>, world_of [Reply ''Good. [RESULT] 4''])
   \<and> llmAvailable \<lparr>llmAvailable = None\<rparr> = None
   \<and> replies (world_of []) (requests (world_of [])) = Failure
   \<and> fst (judge_step (Score ''Fix the bug'') \<lparr>llmAvailable = None\<rparr> (world_of [])) = Heuristic
   \<and> llmAvailable (fst (snd (judge_step (Score ''Fix the bug'') \<lparr>llmAvailable = None\<rparr> (world_of []))))
        = Some False"
proof -
  have a: "replies (world_of []) (requests (world_of [])) = Failure"
    by (simp add: world_of_def)
  show ?thesis
    using judge_fallback
            [of "\<lparr>llmAvailable = Some False\<rparr>"
                "[Score ''Fix the bug'', Compare ''Fix the bug'' ''Refactor code'']"
                "world_of [Reply ''Good. [RESULT] 4'']"]
          judge_fallback [of "\<lparr>llmAvailable = None\<rparr>" _ "world_of []" "Score ''Fix the bug''"]
          a
    by simp
qed

text \<open>
  With the remote judge known to be available, a first scoring call whose request fails is
  answered by the heuristic, and the second call goes to the remote judge again and is answered
  by it: two requests are issued.
\<close>

theorem failed_call_is_not_sticky:
  "fst (judge_run [Score ''Fix the bug'', Score ''Fix the bug''] \<lparr>llmAvailable = Some True\<rparr>
         (world_of [Failure, Reply ''Good. [RESULT] 4'']))
     = [Heuristic, Llm]
   \<and> requests (snd (snd (judge_run [Score ''Fix the bug'', Score ''Fix the bug'']
         \<lparr>llmAvailable = Some True\<rparr> (world_of [Failure, Reply ''Good. [RESULT] 4''])))) = 2"
proof -
  have first: "replies (world_of [Failure, Reply ''Good. [RESULT] 4''])
                 (requests (world_of [Failure, Reply ''Good. [RESULT] 4''])) = Failure"
    by (simp add: world_of_def)
  have second: "replies (world_of [Failure, Reply ''Good. [RESULT] 4''])
                  (requests (world_of [Failure, Reply ''Good. [RESULT] 4'']) + 1)
                = Reply ''Good. [RESULT] 4''"
    by (simp add: world_of_def)
  have one: "judge_step (Score ''Fix the bug'') \<lparr>llmAvailable = Some True\<rparr>
               (world_of [Failure, Reply ''Good. [RESULT] 4''])
             = (Heuristic, \<lparr>llmAvailable = Some True\<rparr>,
                (world_of [Failure, Reply ''Good. [RESULT] 4''])\<lparr>requests := 1\<rparr>)"
    using judge_step_failed_call [OF _ first, of "\<lparr>llmAvailable = Some True\<rparr>"]
    by (simp add: world_of_def)
  have two: "judge_step (Score ''Fix the bug'') \<lparr>llmAvailable = Some True\<rparr>
               ((world_of [Failure, Reply ''Good. [RESULT] 4''])\<lparr>requests := 1\<rparr>)
             = (Llm, \<lparr>llmAvailable = Some True\<rparr>,
                (world_of [Failure, Reply ''Good. [RESULT] 4''])\<lparr>requests := 2\<rparr>)"
    using judge_step_answered_call
            [of "\<lparr>llmAvailable = Some True\<rparr>"
                "(world_of [Failure, Reply ''Good. [RESULT] 4''])\<lparr>requests := 1\<rparr>"
                "''Good. [RESULT] 4''"]
    by (simp add: world_of_def)
  show ?thesis using one two by simp
qed

section \<open>The decision of the optimizer\<close>

lemma rule_length: "r \<in> set OPTIMIZATION_RULES \<Longrightarrow> length c \<le> length (applyRule r c)"
  using rule_additive [of r c] by auto

lemma fold_rules_length:
  assumes "\<And>r c. r \<in> set rules \<Longrightarrow> length c \<le> length (applyRule r c)"
  shows "length t \<le> length (fold (\<lambda>rule optimized. if check rule optimized
                                     then applyRule rule optimized else optimized) rules t)"
  using assms
proof (induction rules arbitrary: t)
  case Nil
  then show ?case by simp
next
  case (Cons r rules)
  let ?step = "\<lambda>rule optimized. if check rule optimized then applyRule rule optimized
                                  else optimized"
  have "length t \<le> length (?step r t)"
    using Cons.prems [of r t] by simp
  also have "\<dots> \<le> length (fold ?step rules (?step r t))"
    using Cons.IH [of "?step r t"] Cons.prems by simp
  finally show ?case by simp
qed

lemma optimizeWithRules_adds_role:
  assumes "\<not> test_words [''you are'', ''act as'', ''your role'', ''as a''] t"
  shows "optimizeWithRules t refs \<noteq> t"
proof -
  obtain r rest where rules: "OPTIMIZATION_RULES = r # rest"
    and chk: "check r = (\<lambda>c. \<not> test_words [''you are'', ''act as'', ''your role'', ''as a''] c)"
    and app: "applyRule r = (\<lambda>c. ''You are an expert AI assistant.'' @ nl @ nl @ c)"
    by (simp add: OPTIMIZATION_RULES_def)
  let ?step = "\<lambda>rule optimized. if check rule optimized then applyRule rule optimized
                                  else optimized"
  have "length c \<le> length (applyRule r' c)" if "r' \<in> set rest" for r' c
  proof -
    from that have "r' \<in> set OPTIMIZATION_RULES" by (simp add: rules)
    then show ?thesis by (rule rule_length)
  qed
  then have "length (?step r t) \<le> length (fold ?step rest (?step r t))"
    by (rule fold_rules_length)
  moreover have "length t < length (?step r t)"
    using assms by (simp add: chk app)
  ultimately have "length t < length (optimizeWithRules t refs)"
    by (simp add: optimizeWithRules_def rules)
  then show ?thesis by auto
qed

lemma must_return_no_role:
  "\<not> test_words [''you are'', ''act as'', ''your role'', ''as a''] ''must return''"
  by code_simp

lemma must_return_score: "score (heuristicScore ''must return'') = 1.9"
  by code_simp

lemma must_return_close: "\<bar>js_minus 2 1.9\<bar> < 0.5"
  by code_simp

lemma doubles_closer_than_decimals:
  "\<bar>js_minus 4.1 3.6\<bar> < 0.5" "\<bar>js_minus 2.3 1.8\<bar> < 0.5" "\<not> \<bar>js_minus 3.3 2.8\<bar> < 0.5"
  by code_simp+

lemma parse_result_2: "parseLLMJudgeOutput ''[RESULT] 2'' = 2"
  by code_simp

lemma parse_result_A: "parseLLMCompareOutput ''[RESULT] A'' = WinA"
  by code_simp

lemma must_return_run:
  "fst (optimizePrompt ''must return'' new_PromptOptimizer
          (world_of [Reply [], Failure, Reply ''[RESULT] 2'', Reply ''[RESULT] A'']))
     = \<lparr>originalContent = ''must return'',
        optimizedContent = optimizeWithRules ''must return'' [],
        originalScore = 1.9,
        optimizedScore = 2,
        improved = False,
        abComparison = Some WinA,
        inspirationSources = [],
        result_method = Heuristic\<rparr>"
proof -
  have refs: "findSimilarPrompts ''must return'' [] 5 0.1 = []"
    by (simp add: findSimilarPrompts_eq ranked_matches_def slice0_def)
  have changed: "optimizeWithRules ''must return'' [] \<noteq> ''must return''"
    using must_return_no_role by (rule optimizeWithRules_adds_role)
  show ?thesis
    using changed must_return_close
    by (simp add: optimizePrompt_def new_PromptOptimizer_def DEFAULT_OPTIMIZER_CONFIG_def refs
          scorePrompt_cases compareVersions_cases probe_if_unknown_def checkAvailability_def
          httpRequest_def world_of_def must_return_score parse_result_2 parse_result_A
          method_heuristicScore)
qed

text \<open>
  Claim C1, as the code has it. \<open>optimizePrompt\<close> invokes the A/B comparison exactly when the
  difference of the two scores, subtracted as doubles, is less than 0.5 in absolute value and
  the candidate text differs from the original, and then \<open>improved\<close> equals (winner = B),
  whatever the scores are. Otherwise \<open>improved\<close> is true exactly when the candidate's score
  is strictly greater; in particular a candidate whose score is greater by a computed 0.5 or
  more wins outright, and when the transformer left the text unchanged the comparison is not
  run and \<open>improved\<close> keeps the value the scores gave it.
\<close>

theorem optimizePrompt_decision:
  "let r = fst (optimizePrompt t opt w) in
     originalContent r = t
     \<and> ((abComparison r \<noteq> None)
          = (\<bar>js_minus (optimizedScore r) (originalScore r)\<bar> < 0.5
             \<and> optimizedContent r \<noteq> originalContent r))
     \<and> (abComparison r \<noteq> None \<longrightarrow> improved r = (abComparison r = Some WinB))
     \<and> (abComparison r = None \<longrightarrow> improved r = (optimizedScore r > originalScore r))
     \<and> (optimizedScore r > originalScore r
          \<and> \<not> \<bar>js_minus (optimizedScore r) (originalScore r)\<bar> < 0.5 \<longrightarrow> improved r)
     \<and> (optimizedContent r = originalContent r \<longrightarrow>
          abComparison r = None \<and> improved r = (optimizedScore r > originalScore r))"
  by (auto simp: optimizePrompt_def Let_def split: prod.splits if_splits)

theorem optimizePrompt_decision_witness:
  "abComparison (fst (optimizePrompt ''must return'' new_PromptOptimizer
       (world_of [Reply [], Failure, Reply ''[RESULT] 2'', Reply ''[RESULT] A'']))) \<noteq> None
   \<and> improved (fst (optimizePrompt ''must return'' new_PromptOptimizer
       (world_of [Reply [], Failure, Reply ''[RESULT] 2'', Reply ''[RESULT] A''])))
      = (abComparison (fst (optimizePrompt ''must return'' new_PromptOptimizer
           (world_of [Reply [], Failure, Reply ''[RESULT] 2'', Reply ''[RESULT] A''])))
         = Some WinB)
   \<and> optimizedContent (fst (optimizePrompt ''must return'' new_PromptOptimizer
       (world_of [Reply [], Failure, Reply ''[RESULT] 2'', Reply ''[RESULT] A'']))) \<noteq> ''must return''"
  using optimizePrompt_decision
          [of "''must return''" new_PromptOptimizer
              "world_of [Reply [], Failure, Reply ''[RESULT] 2'', Reply ''[RESULT] A'']"]
        must_return_run
  by (simp add: Let_def)

text \<open>
  A fresh optimizer whose probe succeeds, whose first scoring request fails and whose other
  requests are answered: the original gets the heuristic score 1.9, the candidate the remote
  score 2, the comparison answers A, and \<open>improved\<close> is false although the candidate scored
  strictly higher.
\<close>

theorem higher_score_can_lose:
  "originalScore (fst (optimizePrompt ''must return'' new_PromptOptimizer
       (world_of [Reply [], Failure, Reply ''[RESULT] 2'', Reply ''[RESULT] A'']))) = 1.9
   \<and> optimizedScore (fst (optimizePrompt ''must return'' new_PromptOptimizer
       (world_of [Reply [], Failure, Reply ''[RESULT] 2'', Reply ''[RESULT] A'']))) = 2
   \<and> \<not> improved (fst (optimizePrompt ''must return'' new_PromptOptimizer
       (world_of [Reply [], Failure, Reply ''[RESULT] 2'', Reply ''[RESULT] A''])))"
  by (simp add: must_return_run)

section \<open>The ledger\<close>

lemma update_first_None: "update_first P f xs = None \<longleftrightarrow> (\<forall>x \<in> set xs. \<not> P x)"
  by (induction xs) auto

lemma update_first_map:
  assumes "update_first P f xs = Some ys" "\<And>x. g (f x) = g x"
  shows "map g ys = map g xs"
  using assms by (induction xs arbitrary: ys) (auto split: if_splits)

lemma update_first_length: "update_first P f xs = Some ys \<Longrightarrow> length ys = length xs"
  by (induction xs arbitrary: ys) (auto split: if_splits)

lemma update_first_find:
  "update_first P f xs = Some ys \<Longrightarrow> (\<And>x. P x \<Longrightarrow> P (f x)) \<Longrightarrow>
     \<exists>x. find P xs = Some x \<and> find P ys = Some (f x)"
  by (induction xs arbitrary: ys) (auto split: if_splits)

lemma update_first_rel:
  assumes "update_first P f xs = Some ys" "\<And>x. R x x" "\<And>x. R x (f x)"
  shows "list_all2 R xs ys"
  using assms by (induction xs arbitrary: ys) (auto split: if_splits simp: list_all2_refl)

lemma histories_save [simp]: "histories (save vm) = histories vm"
  by (simp add: save_def)

lemma versions_recalc_history [simp]: "versions (recalc_history h) = versions h"
  by (simp add: recalc_history_def Let_def)

lemma promptId_recalc_history [simp]: "promptId (recalc_history h) = promptId h"
  by (simp add: recalc_history_def Let_def)

lemma get_history_Some: "histories vm pid = Some h \<Longrightarrow> get_history vm pid = Own h"
  by (simp add: get_history_def)

lemma get_history_None:
  "histories vm pid = None \<Longrightarrow>
     get_history vm pid = (if pid \<in> set Object_prototype_members then Inherited else Absent)"
  by (simp add: get_history_def)

lemma get_history_Own: "get_history vm pid = Own h \<longleftrightarrow> histories vm pid = Some h"
  by (simp add: get_history_def split: option.splits)

lemma recalcRecommended_own:
  "histories vm pid = Some h \<Longrightarrow>
     recalcRecommended pid vm = Inr (vm\<lparr>histories := (histories vm)(pid \<mapsto> recalc_history h)\<rparr>)"
  by (simp add: recalcRecommended_def get_history_def)

lemma histories_initHistory:
  "histories (snd (initHistory pid text src vm)) =
     (case histories vm pid of
        Some h \<Rightarrow> histories vm
      | None \<Rightarrow>
          if pid \<in> set Object_prototype_members then histories vm
          else (histories vm)(pid \<mapsto>
            \<lparr>promptId = pid,
             versions = [\<lparr>version = 1, content = text, judgeScore = None, source = src,
                          inspirationSource = None, changeNote = None\<rparr>],
             recommendedVersion = 1\<rparr>))"
  by (simp add: initHistory_def get_history_def Let_def split: option.splits)

lemma histories_addVersion:
  "histories (snd (addVersion pid text opts vm)) =
     (case histories vm pid of
        None \<Rightarrow> histories vm
      | Some h \<Rightarrow> (histories vm)(pid \<mapsto> recalc_history (h\<lparr>versions := versions h @
          [\<lparr>version = (if length (versions h) > 0 then version (last (versions h)) + 1 else 1),
            content = text, judgeScore = opt_judgeScore opts, source = opt_source opts,
            inspirationSource = opt_inspirationSource opts, changeNote = opt_changeNote opts\<rparr>]\<rparr>)))"
  by (simp add: addVersion_def recalcRecommended_def get_history_def Let_def split: option.splits)

lemma histories_setScore:
  "histories (snd (setScore pid ordinal sc vm)) =
     (case histories vm pid of
        None \<Rightarrow> histories vm
      | Some h \<Rightarrow>
          (case update_first (\<lambda>v. version v = ordinal) (\<lambda>v. v\<lparr>judgeScore := Some sc\<rparr>) (versions h) of
             None \<Rightarrow> histories vm
           | Some vs \<Rightarrow> (histories vm)(pid \<mapsto> recalc_history (h\<lparr>versions := vs\<rparr>))))"
  by (simp add: setScore_def recalcRecommended_def get_history_def Let_def split: option.splits)

lemma setScore_unknown_ordinal:
  assumes "histories vm pid = Some h" "\<forall>v \<in> set (versions h). version v \<noteq> ordinal"
  shows "setScore pid ordinal sc vm = (Inr False, vm)"
proof -
  have "update_first (\<lambda>v. version v = ordinal) (\<lambda>v. v\<lparr>judgeScore := Some sc\<rparr>) (versions h) = None"
    using assms(2) by (simp add: update_first_None)
  then show ?thesis using assms(1) by (simp add: setScore_def get_history_def)
qed

lemma setScore_found:
  assumes "histories vm pid = Some h"
    "update_first (\<lambda>v. version v = ordinal) (\<lambda>v. v\<lparr>judgeScore := Some sc\<rparr>) (versions h) = Some vs"
  shows "fst (setScore pid ordinal sc vm) = Inr True"
  using assms by (simp add: setScore_def get_history_def recalcRecommended_def)

lemma addVersion_found:
  assumes "histories vm pid = Some h"
  shows "\<exists>ver. fst (addVersion pid text opts vm) = Inr (Some ver)"
  using assms by (simp add: addVersion_def get_history_def recalcRecommended_def Let_def)

lemma absent_ids_rejected:
  assumes "histories vm pid = None" "pid \<notin> set Object_prototype_members"
  shows "addVersion pid text opts vm = (Inr None, vm)" "setScore pid ordinal sc vm = (Inr False, vm)"
  using assms by (simp_all add: addVersion_def setScore_def get_history_def)

lemma inherited_ids_throw:
  assumes "histories vm pid = None" "pid \<in> set Object_prototype_members"
  shows "addVersion pid text opts vm = (Inl TypeError, vm)"
    "setScore pid ordinal sc vm = (Inl TypeError, vm)"
  using assms by (simp_all add: addVersion_def setScore_def get_history_def)

lemma p1_initialised:
  "histories (snd (initHistory ''p1'' ''Original prompt content'' Manual new_VersionManager)) ''p1''
     = Some \<lparr>promptId = ''p1'',
             versions = [\<lparr>version = 1, content = ''Original prompt content'', judgeScore = None,
                          source = Manual, inspirationSource = None, changeNote = None\<rparr>],
             recommendedVersion = 1\<rparr>"
  by (simp add: histories_initHistory new_VersionManager_def Object_prototype_members_def)

text \<open>
  Claim C8 at the identifier \<^verbatim>\<open>constructor\<close>. The empty ledger has no history under that name,
  yet \<open>addVersion\<close> and \<open>setScore\<close> do not return: the lookup finds the member that every
  plain object inherits, and reading its versions throws a \<^verbatim>\<open>TypeError\<close>. The state of the
  ledger stays as it was. At an identifier that names no inherited member, such as
  \<^verbatim>\<open>nonexistent\<close>, and at an ordinal that no version carries, the calls return nothing and
  false.
\<close>

theorem inherited_id_throws:
  "histories new_VersionManager ''constructor'' = None
   \<and> addVersion ''constructor'' ''x''
        \<lparr>opt_source = Manual, opt_judgeScore = None, opt_inspirationSource = None,
         opt_changeNote = None\<rparr> new_VersionManager = (Inl TypeError, new_VersionManager)
   \<and> setScore ''constructor'' 1 5 new_VersionManager = (Inl TypeError, new_VersionManager)
   \<and> addVersion ''nonexistent'' ''x''
        \<lparr>opt_source = Manual, opt_judgeScore = None, opt_inspirationSource = None,
         opt_changeNote = None\<rparr> new_VersionManager = (Inr None, new_VersionManager)
   \<and> setScore ''bad'' 1 5 new_VersionManager = (Inr False, new_VersionManager)
   \<and> setScore ''p1'' 99 5 (snd (initHistory ''p1'' ''Original prompt content'' Manual new_VersionManager))
       = (Inr False, snd (initHistory ''p1'' ''Original prompt content'' Manual new_VersionManager))"
proof -
  have none: "histories new_VersionManager pid = None" for pid
    by (simp add: new_VersionManager_def)
  have inherited: "''constructor'' \<in> set Object_prototype_members"
    by (simp add: Object_prototype_members_def)
  have own: "''nonexistent'' \<notin> set Object_prototype_members" "''bad'' \<notin> set Object_prototype_members"
    by (simp_all add: Object_prototype_members_def)
  have ordinal: "setScore ''p1'' 99 5
        (snd (initHistory ''p1'' ''Original prompt content'' Manual new_VersionManager))
       = (Inr False, snd (initHistory ''p1'' ''Original prompt content'' Manual new_VersionManager))"
    by (rule setScore_unknown_ordinal [OF p1_initialised]) simp
  show ?thesis
    using none inherited_ids_throw [OF none inherited] absent_ids_rejected [OF none own(1)]
      absent_ids_rejected [OF none own(2)] ordinal
    by simp
qed

lemma preserved_refl: "preserved v v"
  by (simp add: preserved_def)

lemma preserved_trans: "preserved a b \<Longrightarrow> preserved b c \<Longrightarrow> preserved a c"
  by (simp add: preserved_def)

lemma extends_refl: "extends h h"
  by (simp add: extends_def list_all2_refl preserved_refl)

lemma extends_trans:
  assumes "extends a b" "extends b c"
  shows "extends a c"
proof -
  let ?la = "length (versions a)" and ?lb = "length (versions b)"
  from assms have le: "?la \<le> ?lb" "?lb \<le> length (versions c)"
    by (simp_all add: extends_def)
  from assms(1) have ab: "list_all2 preserved (versions a) (take ?la (versions b))"
    by (simp add: extends_def)
  from assms(2) have "list_all2 preserved (versions b) (take ?lb (versions c))"
    by (simp add: extends_def)
  then have "list_all2 preserved (take ?la (versions b)) (take ?la (take ?lb (versions c)))"
    by (rule list_all2_takeI)
  then have bc: "list_all2 preserved (take ?la (versions b)) (take ?la (versions c))"
    using le by (simp add: min_def)
  have "list_all2 preserved (versions a) (take ?la (versions c))"
    using ab bc by (rule list_all2_trans [rotated]) (rule preserved_trans)
  then show ?thesis using le by (simp add: extends_def)
qed

lemma run_op_extends:
  assumes "histories vm pid = Some h"
  shows "\<exists>h'. histories (run_op op vm) pid = Some h' \<and> extends h h'"
proof (cases op)
  case (InitHistory q c src)
  then show ?thesis
    using assms
    by (auto simp: run_op_def histories_initHistory extends_refl split: option.splits if_splits)
next
  case (AddVersion q c opts)
  show ?thesis
  proof (cases "q = pid")
    case True
    then show ?thesis
      using assms AddVersion
      by (simp add: run_op_def histories_addVersion extends_def list_all2_refl preserved_refl)
  next
    case False
    then show ?thesis
      using assms AddVersion
      by (auto simp: run_op_def histories_addVersion extends_refl split: option.splits)
  qed
next
  case (SetScore q ordinal sc)
  show ?thesis
  proof (cases "q = pid")
    case False
    then show ?thesis
      using assms SetScore
      by (auto simp: run_op_def histories_setScore extends_refl split: option.splits)
  next
    case True
    show ?thesis
    proof (cases "update_first (\<lambda>v. version v = ordinal) (\<lambda>v. v\<lparr>judgeScore := Some sc\<rparr>) (versions h)")
      case None
      then show ?thesis
        using assms SetScore True by (simp add: run_op_def histories_setScore extends_refl)
    next
      case (Some vs)
      then have "list_all2 preserved (versions h) vs"
        by (rule update_first_rel) (simp_all add: preserved_def)
      moreover have "length vs = length (versions h)"
        using Some by (rule update_first_length)
      ultimately show ?thesis
        using assms SetScore True Some
        by (simp add: run_op_def histories_setScore extends_def)
    qed
  qed
qed

lemma run_ops_extends:
  "histories vm pid = Some h \<Longrightarrow> \<exists>h'. histories (run_ops ops vm) pid = Some h' \<and> extends h h'"
proof (induction ops arbitrary: vm h)
  case Nil
  then show ?case by (simp add: run_ops_def extends_refl)
next
  case (Cons op ops)
  from run_op_extends [OF Cons.prems, of op]
  obtain h1 where h1: "histories (run_op op vm) pid = Some h1" "extends h h1" by blast
  from Cons.IH [OF h1(1)]
  obtain h2 where h2: "histories (run_ops ops (run_op op vm)) pid = Some h2" "extends h1 h2" by blast
  have "extends h h2" using h1(2) h2(2) by (rule extends_trans)
  then show ?case using h2(1) by (simp add: run_ops_def)
qed

lemma setScore_overwrites:
  assumes "fst (setScore pid ordinal sc vm) = Inr True"
  shows "\<exists>h' v. histories (snd (setScore pid ordinal sc vm)) pid = Some h'
           \<and> find (\<lambda>v. version v = ordinal) (versions h') = Some v \<and> judgeScore v = Some sc"
proof -
  from assms obtain h vs where h: "histories vm pid = Some h"
    and vs: "update_first (\<lambda>v. version v = ordinal) (\<lambda>v. v\<lparr>judgeScore := Some sc\<rparr>) (versions h) = Some vs"
    by (auto simp: setScore_def get_history_def recalcRecommended_def Let_def
          split: option.splits if_splits)
  from update_first_find [OF vs]
  obtain x where "find (\<lambda>v. version v = ordinal) vs = Some (x\<lparr>judgeScore := Some sc\<rparr>)"
    by auto
  then show ?thesis
    using h vs by (simp add: histories_setScore)
qed

text \<open>
  Claim C2, as the code has it. Through every sequence of \<open>initHistory\<close>, \<open>addVersion\<close> and
  \<open>setScore\<close> calls, each version of a history keeps its position, its ordinal and its
  content, and a version that has a score keeps having one. The score itself is not settled
  by the first assignment: a successful \<open>setScore\<close> stores the new score in the version
  with that ordinal, whether or not it had one.
\<close>

theorem versions_immutable_scores_overwritten:
  "(\<forall>h. histories vm pid = Some h \<longrightarrow>
       (\<exists>h'. histories (run_ops ops vm) pid = Some h' \<and> extends h h'))
   \<and> (fst (setScore pid ordinal sc vm) = Inr True \<longrightarrow>
        (\<exists>h' v. histories (snd (setScore pid ordinal sc vm)) pid = Some h'
           \<and> find (\<lambda>v. version v = ordinal) (versions h') = Some v \<and> judgeScore v = Some sc))"
  using run_ops_extends setScore_overwrites by blast

lemma p1_scored_once:
  "histories (run_ops [InitHistory ''p1'' ''Original prompt content'' Manual, SetScore ''p1'' 1 3]
       new_VersionManager) ''p1''
     = Some \<lparr>promptId = ''p1'',
             versions = [\<lparr>version = 1, content = ''Original prompt content'', judgeScore = Some 3,
                          source = Manual, inspirationSource = None, changeNote = None\<rparr>],
             recommendedVersion = 1\<rparr>"
  by (simp add: run_ops_def run_op_def histories_setScore histories_initHistory
        new_VersionManager_def recalc_history_def recalc_step_def Object_prototype_members_def)

lemma p1_scored_twice:
  "histories (run_ops [InitHistory ''p1'' ''Original prompt content'' Manual, SetScore ''p1'' 1 3,
                       SetScore ''p1'' 1 4.5]
       new_VersionManager) ''p1''
     = Some \<lparr>promptId = ''p1'',
             versions = [\<lparr>version = 1, content = ''Original prompt content'', judgeScore = Some 4.5,
                          source = Manual, inspirationSource = None, changeNote = None\<rparr>],
             recommendedVersion = 1\<rparr>"
  by (simp add: run_ops_def run_op_def histories_setScore histories_initHistory
        new_VersionManager_def recalc_history_def recalc_step_def Object_prototype_members_def)

text \<open>
  Scoring version 1 with 3 and then with 4.5 leaves 4.5 in the ledger: the second call changes
  the stored score.
\<close>

theorem setScore_replaces_score:
  "map judgeScore (versions (the (histories
       (run_ops [InitHistory ''p1'' ''Original prompt content'' Manual, SetScore ''p1'' 1 3]
          new_VersionManager) ''p1''))) = [Some 3]
   \<and> map judgeScore (versions (the (histories
       (run_ops [InitHistory ''p1'' ''Original prompt content'' Manual, SetScore ''p1'' 1 3,
                 SetScore ''p1'' 1 4.5]
          new_VersionManager) ''p1''))) = [Some 4.5]"
  using p1_scored_once p1_scored_twice by simp


lemma no_better_self: "no_better v v"
  by (simp add: no_better_def split: option.splits)

lemma no_better_trans:
  assumes "no_better a b" "no_better b c" "judgeScore b \<noteq> None"
  shows "no_better a c"
  using assms by (auto simp: no_better_def split: option.splits)

lemma recalc_step_scored:
  assumes "judgeScore b \<noteq> None"
  shows "judgeScore (recalc_step b v) \<noteq> None \<and> (recalc_step b v = b \<or> recalc_step b v = v)
         \<and> no_better b (recalc_step b v) \<and> no_better v (recalc_step b v)"
  using assms by (auto simp: recalc_step_def no_better_def split: option.splits)

lemma recalc_step_unscored:
  assumes "judgeScore b = None"
  shows "recalc_step b v = (if judgeScore v = None then b else v)"
  using assms by (auto simp: recalc_step_def split: option.splits)

lemma recalc_fold_scored:
  assumes "judgeScore b \<noteq> None"
  shows "judgeScore (recalc_fold vs b) \<noteq> None
         \<and> recalc_fold vs b \<in> insert b (set vs)
         \<and> (\<forall>w \<in> insert b (set vs). no_better w (recalc_fold vs b))"
  using assms
proof (induction vs arbitrary: b)
  case Nil
  then show ?case by (simp add: no_better_self)
next
  case (Cons v vs)
  let ?b1 = "recalc_step b v"
  let ?r = "recalc_fold vs ?b1"
  from recalc_step_scored [OF Cons.prems, of v]
  have s1: "judgeScore ?b1 \<noteq> None" and c1: "?b1 = b \<or> ?b1 = v"
    and nb: "no_better b ?b1" "no_better v ?b1" by blast+
  from Cons.IH [OF s1]
  have sr: "judgeScore ?r \<noteq> None" and mem: "?r \<in> insert ?b1 (set vs)"
    and dom: "\<forall>w \<in> insert ?b1 (set vs). no_better w ?r" by blast+
  have d1: "no_better ?b1 ?r" using dom by blast
  have "no_better b ?r" using nb(1) d1 s1 by (rule no_better_trans)
  moreover have "no_better v ?r" using nb(2) d1 s1 by (rule no_better_trans)
  moreover have "?r \<in> insert b (set (v # vs))" using mem c1 by auto
  ultimately show ?case using sr dom by simp
qed

lemma recalc_fold_unscored:
  assumes "judgeScore b = None"
  shows "if \<forall>v \<in> set vs. judgeScore v = None then recalc_fold vs b = b
         else judgeScore (recalc_fold vs b) \<noteq> None \<and> recalc_fold vs b \<in> set vs
              \<and> (\<forall>w \<in> set vs. no_better w (recalc_fold vs b))"
  using assms
proof (induction vs arbitrary: b)
  case Nil
  then show ?case by simp
next
  case (Cons v vs)
  show ?case
  proof (cases "judgeScore v = None")
    case True
    then have step: "recalc_step b v = b"
      using Cons.prems by (simp add: recalc_step_unscored)
    have "no_better v x" for x
      using True by (simp add: no_better_def)
    then show ?thesis
      using Cons.IH [OF Cons.prems] True step by simp
  next
    case False
    then have step: "recalc_step b v = v"
      using Cons.prems by (auto simp: recalc_step_unscored)
    from recalc_fold_scored [OF False, of vs]
    show ?thesis using False step by auto
  qed
qed

lemma recalc_history_spec:
  assumes "versions h \<noteq> []"
  shows "spec_recommended (versions h) (recommendedVersion (recalc_history h))"
proof -
  let ?vs = "versions h"
  let ?best = "recalc_fold ?vs (hd ?vs)"
  have hd_in: "hd ?vs \<in> set ?vs" using assms by simp
  have rec: "recommendedVersion (recalc_history h)
               = version (if judgeScore ?best = None then last ?vs else ?best)"
    using assms by (simp add: recalc_history_def Let_def)
  show ?thesis
  proof (cases "\<forall>v \<in> set ?vs. judgeScore v = None")
    case True
    then have "judgeScore (hd ?vs) = None" using hd_in by blast
    from recalc_fold_unscored [OF this, of ?vs] True
    have "?best = hd ?vs" by simp
    then have "judgeScore ?best = None" using True hd_in by simp
    then show ?thesis
      using True rec by (simp add: spec_recommended_def list_all_iff)
  next
    case False
    have good: "judgeScore ?best \<noteq> None \<and> ?best \<in> set ?vs \<and> (\<forall>w \<in> set ?vs. no_better w ?best)"
    proof (cases "judgeScore (hd ?vs) = None")
      case True
      from recalc_fold_unscored [OF this, of ?vs] False show ?thesis by simp
    next
      case scored: False
      from recalc_fold_scored [OF this, of ?vs] hd_in show ?thesis
        by (simp add: insert_absorb)
    qed
    then show ?thesis
      using False rec
      by (auto simp: spec_recommended_def list_all_iff list_ex_iff)
  qed
qed

lemma hist_ok_recalc:
  assumes "versions h \<noteq> []" "\<forall>i < length (versions h). version (versions h ! i) = int i + 1"
  shows "hist_ok (recalc_history h)"
  using assms recalc_history_spec [OF assms(1)] by (simp add: hist_ok_def)

lemma run_op_ok:
  assumes "\<And>pid h. histories vm pid = Some h \<Longrightarrow> hist_ok h"
    and "histories (run_op op vm) pid = Some h"
  shows "hist_ok h"
proof (cases op)
  case (InitHistory q c src)
  show ?thesis
  proof (cases "histories vm q")
    case (Some a)
    then show ?thesis
      using assms InitHistory by (simp add: run_op_def histories_initHistory)
  next
    case None
    have "hist_ok \<lparr>promptId = q,
             versions = [\<lparr>version = 1, content = c, judgeScore = None, source = src,
                          inspirationSource = None, changeNote = None\<rparr>],
             recommendedVersion = 1\<rparr>"
      by (simp add: hist_ok_def spec_recommended_def)
    then show ?thesis
      using assms InitHistory None
      by (auto simp: run_op_def histories_initHistory split: if_splits)
  qed
next
  case (AddVersion q c opts)
  show ?thesis
  proof (cases "histories vm q")
    case None
    then show ?thesis
      using assms AddVersion by (simp add: run_op_def histories_addVersion)
  next
    case (Some a)
    then have ok: "hist_ok a" by (rule assms(1))
    let ?n = "length (versions a)"
    let ?ver = "\<lparr>version = (if ?n > 0 then version (last (versions a)) + 1 else 1),
            content = c, judgeScore = opt_judgeScore opts, source = opt_source opts,
            inspirationSource = opt_inspirationSource opts, changeNote = opt_changeNote opts\<rparr>"
    have nonempty: "versions a \<noteq> []" using ok by (simp add: hist_ok_def)
    then have npos: "0 < ?n" by simp
    then have "version (versions a ! (?n - 1)) = int (?n - 1) + 1"
      using ok by (simp add: hist_ok_def)
    also have "int (?n - 1) + 1 = int ?n"
      using nonempty by (cases "versions a") simp_all
    finally have "version (last (versions a)) = int ?n"
      using nonempty by (simp add: last_conv_nth)
    then have "\<forall>i < length (versions a @ [?ver]). version ((versions a @ [?ver]) ! i) = int i + 1"
      using ok by (auto simp: hist_ok_def nth_append less_Suc_eq)
    then have "hist_ok (recalc_history (a\<lparr>versions := versions a @ [?ver]\<rparr>))"
      by (intro hist_ok_recalc) simp_all
    then show ?thesis
      using assms AddVersion Some
      by (auto simp: run_op_def histories_addVersion split: if_splits)
  qed
next
  case (SetScore q ordinal sc)
  show ?thesis
  proof (cases "histories vm q")
    case None
    then show ?thesis
      using assms SetScore by (simp add: run_op_def histories_setScore)
  next
    case (Some a)
    then have ok: "hist_ok a" by (rule assms(1))
    show ?thesis
    proof (cases "update_first (\<lambda>v. version v = ordinal) (\<lambda>v. v\<lparr>judgeScore := Some sc\<rparr>) (versions a)")
      case None
      then show ?thesis
        using assms SetScore Some by (simp add: run_op_def histories_setScore)
    next
      case vs: (Some vs)
      have len: "length vs = length (versions a)"
        using vs by (rule update_first_length)
      have "map version vs = map version (versions a)"
        using vs by (rule update_first_map) simp
      then have "version (vs ! i) = version (versions a ! i)" if "i < length vs" for i
        using that len by (metis nth_map)
      then have "hist_ok (recalc_history (a\<lparr>versions := vs\<rparr>))"
        using ok len by (intro hist_ok_recalc) (auto simp: hist_ok_def)
      then show ?thesis
        using assms SetScore Some vs
        by (auto simp: run_op_def histories_setScore split: if_splits)
    qed
  qed
qed

lemma run_ops_ok:
  assumes "\<And>pid h. histories vm pid = Some h \<Longrightarrow> hist_ok h"
    and "histories (run_ops ops vm) pid = Some h"
  shows "hist_ok h"
  using assms
proof (induction ops arbitrary: vm pid h)
  case Nil
  then show ?case by (simp add: run_ops_def)
next
  case (Cons op ops)
  have "\<And>pid h. histories (run_op op vm) pid = Some h \<Longrightarrow> hist_ok h"
    using Cons.prems(1) by (rule run_op_ok)
  then show ?case
    using Cons.IH [of "run_op op vm" pid h] Cons.prems(2) by (simp add: run_ops_def)
qed

lemma reachable_ok:
  assumes "histories (run_ops ops new_VersionManager) pid = Some h"
  shows "hist_ok h"
  using _ assms by (rule run_ops_ok) (simp add: new_VersionManager_def)

lemma spec_recommended_iff:
  "spec_recommended vs r =
     (if \<forall>v \<in> set vs. judgeScore v = None then r = version (last vs)
      else \<exists>v \<in> set vs. version v = r \<and> judgeScore v \<noteq> None
             \<and> (\<forall>w \<in> set vs. no_better w v))"
  by (simp add: spec_recommended_def list_all_iff list_ex_iff)

lemma spec_recommended_unique:
  assumes "spec_recommended vs r" "spec_recommended vs r'"
  shows "r = r'"
proof (cases "\<forall>v \<in> set vs. judgeScore v = None")
  case True
  then show ?thesis using assms by (simp add: spec_recommended_iff)
next
  case False
  with assms(1) obtain v where v: "v \<in> set vs" "version v = r" "judgeScore v \<noteq> None"
    "\<forall>w \<in> set vs. no_better w v"
    unfolding spec_recommended_iff by auto
  from assms(2) False obtain v' where v': "v' \<in> set vs" "version v' = r'" "judgeScore v' \<noteq> None"
    "\<forall>w \<in> set vs. no_better w v'"
    unfolding spec_recommended_iff by auto
  have "no_better v' v" "no_better v v'" using v v' by blast+
  then have "version v = version v'"
    using v(3) v'(3) by (auto simp: no_better_def split: option.splits)
  then show ?thesis using v(2) v'(2) by simp
qed

lemma scenario_D_scores:
  "map_option (\<lambda>h. (map version (versions h), map judgeScore (versions h), recommendedVersion h))
     (histories (run_ops scenario_D new_VersionManager) ''p1'')
   = Some ([1, 2, 3], [Some 3.0, Some 4.5, Some 4.5], 3)"
  by code_simp

text \<open>
  Claim C3. In every history reached from the empty ledger by \<open>initHistory\<close>, \<open>addVersion\<close>
  and \<open>setScore\<close> calls, the ordinals are 1, 2, 3, ... in order, and \<open>recommendedVersion\<close>
  is the ordinal of the version with the highest score, the higher ordinal among equal scores,
  and the ordinal of the latest version when no version has a score; no other ordinal fits that
  description. With the scores 3.0, 4.5 and 4.5 at the ordinals 1, 2 and 3 the recommendation
  is 3.
\<close>

theorem recommended_is_best:
  "(\<forall>h. histories (run_ops ops new_VersionManager) pid = Some h \<longrightarrow>
       spec_recommended (versions h) (recommendedVersion h)
       \<and> (\<forall>r. spec_recommended (versions h) r \<longrightarrow> r = recommendedVersion h)
       \<and> versions h \<noteq> []
       \<and> (\<forall>i < length (versions h). version (versions h ! i) = int i + 1))
   \<and> map_option (\<lambda>h. (map version (versions h), map judgeScore (versions h), recommendedVersion h))
        (histories (run_ops scenario_D new_VersionManager) ''p1'')
      = Some ([1, 2, 3], [Some 3.0, Some 4.5, Some 4.5], 3)"
proof -
  have "spec_recommended (versions h) (recommendedVersion h)
        \<and> (\<forall>r. spec_recommended (versions h) r \<longrightarrow> r = recommendedVersion h)
        \<and> versions h \<noteq> []
        \<and> (\<forall>i < length (versions h). version (versions h ! i) = int i + 1)"
    if "histories (run_ops ops new_VersionManager) pid = Some h" for h
  proof -
    from that have ok: "hist_ok h" by (rule reachable_ok)
    then have "spec_recommended (versions h) (recommendedVersion h)"
      by (simp add: hist_ok_def)
    then show ?thesis
      using ok spec_recommended_unique by (auto simp: hist_ok_def)
  qed
  then show ?thesis
    using scenario_D_scores by blast
qed

theorem recommended_is_best_witness:
  "histories (run_ops [InitHistory ''p1'' ''Original prompt content'' Manual, SetScore ''p1'' 1 3]
       new_VersionManager) ''p1''
     = Some \<lparr>promptId = ''p1'',
             versions = [\<lparr>version = 1, content = ''Original prompt content'', judgeScore = Some 3,
                          source = Manual, inspirationSource = None, changeNote = None\<rparr>],
             recommendedVersion = 1\<rparr>
   \<and> spec_recommended
        [\<lparr>version = 1, content = ''Original prompt content'', judgeScore = Some 3,
          source = Manual, inspirationSource = None, changeNote = None\<rparr>] 1"
  using recommended_is_best
          [of "[InitHistory ''p1'' ''Original prompt content'' Manual, SetScore ''p1'' 1 3]" "''p1''"]
        p1_scored_once
  by simp

theorem versions_immutable_scores_overwritten_witness:
  "histories (snd (initHistory ''p1'' ''Original prompt content'' Manual new_VersionManager)) ''p1''
     = Some \<lparr>promptId = ''p1'',
             versions = [\<lparr>version = 1, content = ''Original prompt content'', judgeScore = None,
                          source = Manual, inspirationSource = None, changeNote = None\<rparr>],
             recommendedVersion = 1\<rparr>
   \<and> (\<exists>h'. histories (run_ops [SetScore ''p1'' 1 3]
                (snd (initHistory ''p1'' ''Original prompt content'' Manual new_VersionManager))) ''p1''
              = Some h'
           \<and> length (versions h') \<ge> 1)
   \<and> fst (setScore ''p1'' 1 3
            (snd (initHistory ''p1'' ''Original prompt content'' Manual new_VersionManager)))
       = Inr True
   \<and> (\<exists>h' v. histories (snd (setScore ''p1'' 1 3
                  (snd (initHistory ''p1'' ''Original prompt content'' Manual new_VersionManager)))) ''p1''
                = Some h'
             \<and> find (\<lambda>v. version v = 1) (versions h') = Some v \<and> judgeScore v = Some 3)"
proof -
  have ok: "fst (setScore ''p1'' 1 3
            (snd (initHistory ''p1'' ''Original prompt content'' Manual new_VersionManager)))
          = Inr True"
    by (rule setScore_found [OF p1_initialised]) simp
  show ?thesis
    using versions_immutable_scores_overwritten
            [of "snd (initHistory ''p1'' ''Original prompt content'' Manual new_VersionManager)"
                "''p1''" "[SetScore ''p1'' 1 3]" 1 3]
          p1_initialised ok
    by (auto simp: extends_def)
qed

section \<open>The optimize cycle\<close>

lemma originalContent_optimizePrompt: "originalContent (fst (optimizePrompt t opt w)) = t"
  by (simp add: optimizePrompt_def Let_def split: prod.splits)

lemma inherited_addVersion:
  "(get_history (snd (addVersion pid text opts vm)) q = Inherited) = (get_history vm q = Inherited)"
  by (auto simp: get_history_def histories_addVersion split: option.splits if_splits)

lemma inherited_setScore:
  "(get_history (snd (setScore pid ordinal sc vm)) q = Inherited) = (get_history vm q = Inherited)"
  by (auto simp: get_history_def histories_setScore split: option.splits if_splits)

lemma addVersion_returns:
  assumes "get_history vm pid \<noteq> Inherited"
  shows "\<exists>v. fst (addVersion pid text opts vm) = Inr v"
  using assms
  by (cases "histories vm pid")
     (auto simp: addVersion_def get_history_def recalcRecommended_def Let_def split: if_splits)

lemma setScore_returns:
  assumes "get_history vm pid \<noteq> Inherited"
  shows "\<exists>b. fst (setScore pid ordinal sc vm) = Inr b"
  using assms
  by (cases "histories vm pid")
     (auto simp: setScore_def get_history_def recalcRecommended_def Let_def
        split: option.splits if_splits)

lemma optimizeAndVersion_returns:
  assumes "get_history vm pid \<noteq> Inherited"
  shows "fst (optimizeAndVersion pid t vm opt w) = Inr (fst (optimizePrompt t opt w))"
proof -
  obtain result opt' w' where run: "optimizePrompt t opt w = (result, opt', w')"
    by (cases "optimizePrompt t opt w") auto
  let ?opts = "\<lparr>opt_source = AutoOptimize,
                 opt_judgeScore = Some (optimizedScore result),
                 opt_inspirationSource = Some (join_with '', '' (inspirationSources result)),
                 opt_changeNote = Some ''Auto-optimized: ''\<rparr>"
  obtain a vm1 where add: "addVersion pid (optimizedContent result) ?opts vm = (a, vm1)"
    by (cases "addVersion pid (optimizedContent result) ?opts vm") auto
  from addVersion_returns [OF assms, of "optimizedContent result" ?opts] add
  obtain v where a: "a = Inr v" by auto
  have own: "get_history vm1 pid \<noteq> Inherited"
    using inherited_addVersion [of pid "optimizedContent result" ?opts vm pid] add assms by simp
  have scored: "\<exists>b vm2. setScore pid ordinal sc vm1 = (Inr b, vm2)" for ordinal sc
    using setScore_returns [OF own, of ordinal sc]
    by (cases "setScore pid ordinal sc vm1") auto
  show ?thesis
  proof (cases "improved result")
    case False
    then show ?thesis using run by (simp add: optimizeAndVersion_def)
  next
    case True
    show ?thesis
    proof (cases "get_history vm1 pid")
      case Absent
      then show ?thesis using run True add a by (simp add: optimizeAndVersion_def)
    next
      case Inherited
      then show ?thesis using own by simp
    next
      case (Own history)
      show ?thesis
      proof (cases "find (\<lambda>v. content v = t) (versions history)")
        case None
        then show ?thesis using run True add a Own by (simp add: optimizeAndVersion_def)
      next
        case (Some origVer)
        from scored [of "version origVer" "originalScore result"]
        obtain b vm2 where "setScore pid (version origVer) (originalScore result) vm1 = (Inr b, vm2)"
          by blast
        then show ?thesis
          using run True add a Own Some by (simp add: optimizeAndVersion_def)
      qed
    qed
  qed
qed

lemma optimizeAndVersion_throws:
  assumes "get_history vm pid = Inherited" "improved (fst (optimizePrompt t opt w))"
  shows "fst (optimizeAndVersion pid t vm opt w) = Inl TypeError"
  using assms
  by (cases "optimizePrompt t opt w") (simp add: optimizeAndVersion_def addVersion_def)

lemma optimizeAndVersion_result:
  assumes "fst (optimizeAndVersion pid t vm opt w) = Inr r"
  shows "r = fst (optimizePrompt t opt w)"
  using assms
  by (auto simp: optimizeAndVersion_def
        split: prod.splits if_splits sum.splits lookup.splits option.splits)

lemma inherited_optimizeAndVersion:
  "(get_history (fst (snd (optimizeAndVersion pid t vm opt w))) q = Inherited)
     = (get_history vm q = Inherited)"
proof -
  obtain result opt' w' where run: "optimizePrompt t opt w = (result, opt', w')"
    by (cases "optimizePrompt t opt w") auto
  let ?opts = "\<lparr>opt_source = AutoOptimize,
                 opt_judgeScore = Some (optimizedScore result),
                 opt_inspirationSource = Some (join_with '', '' (inspirationSources result)),
                 opt_changeNote = Some ''Auto-optimized: ''\<rparr>"
  obtain a vm1 where add: "addVersion pid (optimizedContent result) ?opts vm = (a, vm1)"
    by (cases "addVersion pid (optimizedContent result) ?opts vm") auto
  have one: "(get_history vm1 q = Inherited) = (get_history vm q = Inherited)"
    using inherited_addVersion [of pid "optimizedContent result" ?opts vm q] add by simp
  have two: "(get_history vm2 q = Inherited) = (get_history vm q = Inherited)"
    if "setScore pid ordinal sc vm1 = (b, vm2)" for ordinal sc b vm2
    using inherited_setScore [of pid ordinal sc vm1 q] that one by simp
  show ?thesis
    using run add one two
    by (auto simp: optimizeAndVersion_def
          split: prod.splits if_splits sum.splits lookup.splits option.splits)
qed

lemma optimize_one_result:
  assumes "fst (optimize_one p opt vm w) = Inr r"
  shows "originalContent r = u_content p"
proof (cases vm)
  case None
  then have "r = fst (optimizePrompt (u_content p) opt w)"
    using assms by (simp add: optimize_one_def split: prod.splits)
  then show ?thesis by (simp add: originalContent_optimizePrompt)
next
  case (Some m)
  then have "fst (optimizeAndVersion (u_id p) (u_content p) m opt w) = Inr r"
    using assms by (simp add: optimize_one_def split: prod.splits)
  then have "r = fst (optimizePrompt (u_content p) opt w)"
    by (rule optimizeAndVersion_result)
  then show ?thesis by (simp add: originalContent_optimizePrompt)
qed

lemma optimize_one_returns:
  assumes "\<not> may_throw vm p"
  shows "\<exists>r. fst (optimize_one p opt vm w) = Inr r"
proof (cases vm)
  case None
  then show ?thesis by (simp add: optimize_one_def split: prod.splits)
next
  case (Some m)
  then have "get_history m (u_id p) \<noteq> Inherited"
    using assms by (simp add: may_throw_def)
  from optimizeAndVersion_returns [OF this, of "u_content p" opt w]
  show ?thesis using Some by (auto simp: optimize_one_def split: prod.splits)
qed

lemma may_throw_optimize_one:
  "may_throw (fst (snd (snd (optimize_one p opt vm w)))) q = may_throw vm q"
proof (cases vm)
  case None
  then show ?thesis by (simp add: optimize_one_def may_throw_def split: prod.splits)
next
  case (Some m)
  then show ?thesis
    using inherited_optimizeAndVersion [of "u_id p" "u_content p" m opt w "u_id q"]
    by (auto simp: optimize_one_def may_throw_def split: prod.splits)
qed

lemma optimize_each_subseq:
  "subseq (map originalContent (fst (optimize_each ps opt vm w))) (map u_content ps)"
proof (induction ps arbitrary: opt vm w)
  case Nil
  then show ?case by simp
next
  case (Cons p ps)
  obtain outcome opt' vm' w' where one: "optimize_one p opt vm w = (outcome, opt', vm', w')"
    by (cases "optimize_one p opt vm w") auto
  obtain rs opt'' vm'' w'' where rest: "optimize_each ps opt' vm' w' = (rs, opt'', vm'', w'')"
    by (cases "optimize_each ps opt' vm' w'") auto
  have IH: "subseq (map originalContent rs) (map u_content ps)"
    using Cons.IH [of opt' vm' w'] rest by simp
  show ?case
  proof (cases outcome)
    case (Inl e)
    then show ?thesis using one rest IH by (simp add: list_emb_Cons)
  next
    case (Inr r)
    then have "originalContent r = u_content p"
      using optimize_one_result [of p opt vm w r] one by simp
    then show ?thesis using one rest IH Inr by simp
  qed
qed

lemma optimize_each_contents:
  assumes "\<forall>p \<in> set ps. \<not> may_throw vm p"
  shows "map originalContent (fst (optimize_each ps opt vm w)) = map u_content ps"
  using assms
proof (induction ps arbitrary: opt vm w)
  case Nil
  then show ?case by simp
next
  case (Cons p ps)
  obtain outcome opt' vm' w' where one: "optimize_one p opt vm w = (outcome, opt', vm', w')"
    by (cases "optimize_one p opt vm w") auto
  obtain rs opt'' vm'' w'' where rest: "optimize_each ps opt' vm' w' = (rs, opt'', vm'', w'')"
    by (cases "optimize_each ps opt' vm' w'") auto
  have "may_throw vm' q = may_throw vm q" for q
    using may_throw_optimize_one [of p opt vm w q] one by simp
  then have "\<forall>q \<in> set ps. \<not> may_throw vm' q"
    using Cons.prems by simp
  then have IH: "map originalContent rs = map u_content ps"
    using Cons.IH [of vm' opt' w'] rest by simp
  from optimize_one_returns [of vm p opt w] Cons.prems one
  obtain r where r: "outcome = Inr r" by auto
  then have "originalContent r = u_content p"
    using optimize_one_result [of p opt vm w r] one by simp
  then show ?case using one rest IH r by simp
qed

lemma runOptimizeCycle_provided:
  assumes "getPromptsFn s = Some (Inr ps)"
  shows "fst (runOptimizeCycle s w)
           = fst (optimize_each (slice0 (maxOptimizePerCycle (sched_config s))
               (filter (\<lambda>p. usageCount p \<ge> minUsageForOptimize (sched_config s)) ps))
               (optimizer s) (versionManager s) w)
         \<and> emitted (fst (snd (runOptimizeCycle s w)))
           = emitted s @ [OptimizeStart,
               OptimizeDone (length (fst (runOptimizeCycle s w)))
                 (length (filter improved (fst (runOptimizeCycle s w))))]
         \<and> optimizeCount (fst (snd (runOptimizeCycle s w))) = optimizeCount s + 1"
  using assms by (simp add: runOptimizeCycle_def emit_def Let_def split: prod.splits)

lemma parse_result_4: "parseLLMJudgeOutput ''[RESULT] 4'' = 4"
  by code_simp

lemma far_apart: "\<not> \<bar>js_minus 4 2\<bar> < 0.5"
  by code_simp

lemma must_return_improved:
  "improved (fst (optimizePrompt ''must return'' new_PromptOptimizer
      (world_of [Reply [], Reply ''[RESULT] 2'', Reply ''[RESULT] 4''])))"
proof -
  have refs: "findSimilarPrompts ''must return'' [] 5 0.1 = []"
    by (simp add: findSimilarPrompts_eq ranked_matches_def slice0_def)
  show ?thesis
    using far_apart
    by (simp add: optimizePrompt_def new_PromptOptimizer_def DEFAULT_OPTIMIZER_CONFIG_def refs
          scorePrompt_cases probe_if_unknown_def checkAvailability_def
          httpRequest_def world_of_def parse_result_2 parse_result_4)
qed

lemma inherited_id_leaves_no_result:
  "fst (runOptimizeCycle
     ((scenario_E 2)\<lparr>versionManager := Some new_VersionManager,
        getPromptsFn := Some (Inr [\<lparr>u_id = ''constructor'', u_content = ''must return'',
                                     usageCount = 3\<rparr>])\<rparr>)
     (world_of [Reply [], Reply ''[RESULT] 2'', Reply ''[RESULT] 4''])) = []"
proof -
  let ?p = "\<lparr>u_id = ''constructor'', u_content = ''must return'', usageCount = 3\<rparr>"
  let ?s = "(scenario_E 2)\<lparr>versionManager := Some new_VersionManager,
              getPromptsFn := Some (Inr [?p])\<rparr>"
  let ?w = "world_of [Reply [], Reply ''[RESULT] 2'', Reply ''[RESULT] 4'']"
  have run: "fst (runOptimizeCycle ?s ?w)
               = fst (optimize_each [?p] new_PromptOptimizer (Some new_VersionManager) ?w)"
    using runOptimizeCycle_provided [of ?s "[?p]" ?w]
    by (simp add: scenario_E_def slice0_def del: optimize_each.simps)
  have "get_history new_VersionManager ''constructor'' = Inherited"
    by (simp add: get_history_def new_VersionManager_def Object_prototype_members_def)
  then have "fst (optimizeAndVersion ''constructor'' ''must return'' new_VersionManager
      new_PromptOptimizer ?w) = Inl TypeError"
    using must_return_improved by (rule optimizeAndVersion_throws)
  then have "fst (optimize_one ?p new_PromptOptimizer (Some new_VersionManager) ?w) = Inl TypeError"
    by (auto simp: optimize_one_def split: prod.splits)
  then have "fst (optimize_each [?p] new_PromptOptimizer (Some new_VersionManager) ?w) = []"
    by (auto split: prod.splits)
  then show ?thesis
    by (simp only: run)
qed

text \<open>
  Claim C9. Without a prompt provider \<open>runOptimizeCycle\<close> returns the empty list and changes
  nothing, so it emits no event. With a provider that returns a list, the cycle processes the
  prompts whose usage count is at least the configured minimum, in the order of the provider,
  the first \<open>max\<close> of them, \<open>max\<close> being the configured maximum per cycle (a count, so not
  negative): it returns one result for each of them, in that order, hence at most \<open>max\<close>
  results, leaving out only a prompt whose optimization throws, which takes a version manager
  and an identifier that names an inherited member of its store; the cycle is bracketed by a
  start and a done event. With the usage counts 3, 5 and 0, a minimum of 1 and a maximum of 2,
  exactly the first two prompts are processed and two results returned.
\<close>

theorem runOptimizeCycle_selection:
  "(getPromptsFn s = None \<longrightarrow> runOptimizeCycle s w = ([], s, w))
   \<and> (\<forall>ps. getPromptsFn s = Some (Inr ps) \<and> 0 \<le> maxOptimizePerCycle (sched_config s) \<longrightarrow>
         (let selected = take (nat (maxOptimizePerCycle (sched_config s)))
                (filter (\<lambda>p. usageCount p \<ge> minUsageForOptimize (sched_config s)) ps);
              results = fst (runOptimizeCycle s w)
          in results = fst (optimize_each selected (optimizer s) (versionManager s) w)
             \<and> subseq (map originalContent results) (map u_content selected)
             \<and> ((\<forall>p \<in> set selected. \<not> may_throw (versionManager s) p) \<longrightarrow>
                  map originalContent results = map u_content selected)
             \<and> int (length results) \<le> maxOptimizePerCycle (sched_config s)
             \<and> emitted (fst (snd (runOptimizeCycle s w)))
                  = emitted s @ [OptimizeStart,
                      OptimizeDone (length results) (length (filter improved results))]))
   \<and> map originalContent (fst (runOptimizeCycle (scenario_E 2) w))
        = [''Write a sorting function'', ''Help me debug this code'']
   \<and> length (fst (runOptimizeCycle (scenario_E 2) w)) = 2"
proof -
  have none: "runOptimizeCycle s w = ([], s, w)" if "getPromptsFn s = None"
    using that by (simp add: runOptimizeCycle_def)
  have some: "let selected = take (nat (maxOptimizePerCycle (sched_config s)))
                (filter (\<lambda>p. usageCount p \<ge> minUsageForOptimize (sched_config s)) ps);
              results = fst (runOptimizeCycle s w)
          in results = fst (optimize_each selected (optimizer s) (versionManager s) w)
             \<and> subseq (map originalContent results) (map u_content selected)
             \<and> ((\<forall>p \<in> set selected. \<not> may_throw (versionManager s) p) \<longrightarrow>
                  map originalContent results = map u_content selected)
             \<and> int (length results) \<le> maxOptimizePerCycle (sched_config s)
             \<and> emitted (fst (snd (runOptimizeCycle s w)))
                  = emitted s @ [OptimizeStart,
                      OptimizeDone (length results) (length (filter improved results))]"
    if ps: "getPromptsFn s = Some (Inr ps)" and nonneg: "0 \<le> maxOptimizePerCycle (sched_config s)"
    for ps
  proof -
    let ?max = "maxOptimizePerCycle (sched_config s)"
    let ?selected = "take (nat ?max) (filter (\<lambda>p. usageCount p \<ge> minUsageForOptimize (sched_config s)) ps)"
    let ?results = "fst (runOptimizeCycle s w)"
    note sel = runOptimizeCycle_provided [OF ps, of w]
    have run: "?results = fst (optimize_each ?selected (optimizer s) (versionManager s) w)"
      using sel nonneg by (simp add: slice0_nonneg)
    have sub: "subseq (map originalContent ?results) (map u_content ?selected)"
      unfolding run by (rule optimize_each_subseq)
    have all: "map originalContent ?results = map u_content ?selected"
      if "\<forall>p \<in> set ?selected. \<not> may_throw (versionManager s) p"
      unfolding run using that by (rule optimize_each_contents)
    have "length (map originalContent ?results) \<le> length (map u_content ?selected)"
      using sub by (rule list_emb_length)
    then have "length ?results \<le> nat ?max"
      by simp
    then have bound: "int (length ?results) \<le> ?max"
      using nonneg by linarith
    show ?thesis
      unfolding Let_def using run sub all bound sel by blast
  qed
  let ?two = "[\<lparr>u_id = ''user-1'', u_content = ''Write a sorting function'', usageCount = 3\<rparr>,
               \<lparr>u_id = ''user-2'', u_content = ''Help me debug this code'', usageCount = 5\<rparr>]"
  have run: "fst (runOptimizeCycle (scenario_E 2) w)
          = fst (optimize_each ?two new_PromptOptimizer None w)"
    using runOptimizeCycle_provided [of "scenario_E 2" _ w]
    by (simp add: scenario_E_def slice0_def del: optimize_each.simps)
  have "map originalContent (fst (optimize_each ?two new_PromptOptimizer None w))
          = map u_content ?two"
    by (rule optimize_each_contents) (simp add: may_throw_def)
  then have example: "map originalContent (fst (runOptimizeCycle (scenario_E 2) w))
        = [''Write a sorting function'', ''Help me debug this code'']"
    by (simp only: run) simp
  then have "length (map originalContent (fst (runOptimizeCycle (scenario_E 2) w))) = 2"
    by simp
  then have "length (fst (runOptimizeCycle (scenario_E 2) w)) = 2"
    by simp
  then show ?thesis
    using none some example by blast
qed

theorem runOptimizeCycle_selection_witness:
  "getPromptsFn ((scenario_E 1)\<lparr>getPromptsFn := None\<rparr>) = None
   \<and> runOptimizeCycle ((scenario_E 1)\<lparr>getPromptsFn := None\<rparr>) (world_of [])
       = ([], (scenario_E 1)\<lparr>getPromptsFn := None\<rparr>, world_of [])
   \<and> (0::int) \<le> maxOptimizePerCycle (sched_config (scenario_E 1))
   \<and> versionManager (scenario_E 1) = None
   \<and> map originalContent (fst (runOptimizeCycle (scenario_E 1) (world_of [])))
       = [''Write a sorting function'']
   \<and> int (length (fst (runOptimizeCycle (scenario_E 1) (world_of [])))) \<le> 1"
proof -
  have off: "getPromptsFn ((scenario_E 1)\<lparr>getPromptsFn := None\<rparr>) = None"
    by simp
  have on: "getPromptsFn (scenario_E 1) = Some (Inr
        [\<lparr>u_id = ''user-1'', u_content = ''Write a sorting function'', usageCount = 3\<rparr>,
         \<lparr>u_id = ''user-2'', u_content = ''Help me debug this code'', usageCount = 5\<rparr>,
         \<lparr>u_id = ''user-3'', u_content = ''Explain recursion'', usageCount = 0\<rparr>])"
    by (simp add: scenario_E_def)
  have cfg: "maxOptimizePerCycle (sched_config (scenario_E 1)) = 1"
    "minUsageForOptimize (sched_config (scenario_E 1)) = 1"
    "versionManager (scenario_E 1) = None"
    by (simp_all add: scenario_E_def)
  have first: "runOptimizeCycle ((scenario_E 1)\<lparr>getPromptsFn := None\<rparr>) (world_of [])
       = ([], (scenario_E 1)\<lparr>getPromptsFn := None\<rparr>, world_of [])"
    using runOptimizeCycle_selection [of "(scenario_E 1)\<lparr>getPromptsFn := None\<rparr>" "world_of []"] off
    by blast
  let ?selected = "take (nat (maxOptimizePerCycle (sched_config (scenario_E 1))))
      (filter (\<lambda>p. usageCount p \<ge> minUsageForOptimize (sched_config (scenario_E 1)))
        [\<lparr>u_id = ''user-1'', u_content = ''Write a sorting function'', usageCount = 3\<rparr>,
         \<lparr>u_id = ''user-2'', u_content = ''Help me debug this code'', usageCount = 5\<rparr>,
         \<lparr>u_id = ''user-3'', u_content = ''Explain recursion'', usageCount = 0\<rparr>])"
  have nonneg: "0 \<le> maxOptimizePerCycle (sched_config (scenario_E 1))"
    by (simp add: cfg)
  have safe: "\<forall>p \<in> set ?selected. \<not> may_throw (versionManager (scenario_E 1)) p"
    by (simp add: cfg may_throw_def)
  have "map originalContent (fst (runOptimizeCycle (scenario_E 1) (world_of [])))
          = map u_content ?selected
        \<and> int (length (fst (runOptimizeCycle (scenario_E 1) (world_of []))))
            \<le> maxOptimizePerCycle (sched_config (scenario_E 1))"
    using runOptimizeCycle_selection [of "scenario_E 1" "world_of []"] on nonneg safe
    unfolding Let_def by blast
  then have second: "map originalContent (fst (runOptimizeCycle (scenario_E 1) (world_of [])))
       = [''Write a sorting function'']
     \<and> int (length (fst (runOptimizeCycle (scenario_E 1) (world_of [])))) \<le> 1"
    by (simp add: cfg)
  show ?thesis
    using off first second by (simp add: cfg)
qed

end
